theory Spec2Isabelle
  imports Main "HOL-Library.DAList"
begin

section \<open>Byte strings and the library functions the server calls\<close>

text \<open>
  A Go string is a sequence of bytes, here a \<^typ>\<open>string\<close>. The functions of this
  section stand for the functions of Go's packages \<^verbatim>\<open>strings\<close>, \<^verbatim>\<open>fmt\<close>, \<^verbatim>\<open>time\<close> and
  \<^verbatim>\<open>bufio\<close> that \<^verbatim>\<open>cmd/server/server.go\<close> calls, at the arguments it calls them with.
\<close>

definition NL :: char where
  "NL = CHR 0x0A"

definition CR :: char where
  "CR = CHR 0x0D"

definition SP :: char where
  "SP = CHR 0x20"

definition HasPrefix :: "string \<Rightarrow> string \<Rightarrow> bool" where
  "HasPrefix s p \<longleftrightarrow> length p \<le> length s \<and> take (length p) s = p"

definition HasSuffix :: "string \<Rightarrow> string \<Rightarrow> bool" where
  "HasSuffix s p \<longleftrightarrow> length p \<le> length s \<and> drop (length s - length p) s = p"

text \<open>
  \<^verbatim>\<open>strings.SplitN(s, sep, n)\<close> for a separator of one byte and \<open>n \<ge> 0\<close>: at most \<open>n\<close>
  pieces, cut at the first \<open>n - 1\<close> separators, the last piece being the unsplit rest.
\<close>

fun SplitN :: "string \<Rightarrow> char \<Rightarrow> nat \<Rightarrow> string list" where
  "SplitN s sep 0 = []"
| "SplitN s sep (Suc 0) = [s]"
| "SplitN s sep (Suc (Suc n)) =
     (if sep \<in> set s
      then takeWhile (\<lambda>c. c \<noteq> sep) s # SplitN (tl (dropWhile (\<lambda>c. c \<noteq> sep) s)) sep (Suc n)
      else [s])"

fun Join :: "string list \<Rightarrow> string \<Rightarrow> string" where
  "Join [] sep = []"
| "Join [x] sep = x"
| "Join (x # y # ys) sep = x @ sep @ Join (y # ys) sep"

text \<open>
  \<^verbatim>\<open>strings.TrimSpace\<close> removes the leading and the trailing white space, as Unicode
  defines it. \<open>space_runes\<close> lists the UTF-8 encodings of the code points with the
  property White_Space: the six of ASCII, then U+0085, U+00A0, U+1680, U+2000 to U+200A,
  U+2028, U+2029, U+202F, U+205F and U+3000. Each encoding begins with a byte that
  begins a rune, so decoding the first (last) rune of a string gives white space exactly
  when the string begins (ends) with one of these byte sequences.
\<close>

definition space_runes :: "string list" where
  "space_runes =
     [[CHR 0x09], [CHR 0x0A], [CHR 0x0B], [CHR 0x0C], [CHR 0x0D], [CHR 0x20],
      [CHR 0xC2, CHR 0x85], [CHR 0xC2, CHR 0xA0],
      [CHR 0xE1, CHR 0x9A, CHR 0x80],
      [CHR 0xE2, CHR 0x80, CHR 0x80], [CHR 0xE2, CHR 0x80, CHR 0x81],
      [CHR 0xE2, CHR 0x80, CHR 0x82], [CHR 0xE2, CHR 0x80, CHR 0x83],
      [CHR 0xE2, CHR 0x80, CHR 0x84], [CHR 0xE2, CHR 0x80, CHR 0x85],
      [CHR 0xE2, CHR 0x80, CHR 0x86], [CHR 0xE2, CHR 0x80, CHR 0x87],
      [CHR 0xE2, CHR 0x80, CHR 0x88], [CHR 0xE2, CHR 0x80, CHR 0x89],
      [CHR 0xE2, CHR 0x80, CHR 0x8A],
      [CHR 0xE2, CHR 0x80, CHR 0xA8], [CHR 0xE2, CHR 0x80, CHR 0xA9],
      [CHR 0xE2, CHR 0x80, CHR 0xAF],
      [CHR 0xE2, CHR 0x81, CHR 0x9F],
      [CHR 0xE3, CHR 0x80, CHR 0x80]]"

lemma space_runes_nonempty: "p \<in> set space_runes \<Longrightarrow> p \<noteq> []"
  by (auto simp: space_runes_def)

function TrimLeft :: "string \<Rightarrow> string" where
  "TrimLeft s =
     (case find (HasPrefix s) space_runes of
        None \<Rightarrow> s
      | Some p \<Rightarrow> TrimLeft (drop (length p) s))"
  by pat_completeness auto
termination
proof (relation "measure length")
  fix s p
  assume "find (HasPrefix s) space_runes = Some p"
  then have "p \<in> set space_runes" and "HasPrefix s p"
    by (auto simp: find_Some_iff)
  then have "0 < length p" and "length p \<le> length s"
    by (auto simp: HasPrefix_def dest: space_runes_nonempty)
  then show "(drop (length p) s, s) \<in> measure length"
    by (cases p) auto
qed simp

function TrimRight :: "string \<Rightarrow> string" where
  "TrimRight s =
     (case find (HasSuffix s) space_runes of
        None \<Rightarrow> s
      | Some p \<Rightarrow> TrimRight (take (length s - length p) s))"
  by pat_completeness auto
termination
proof (relation "measure length")
  fix s p
  assume "find (HasSuffix s) space_runes = Some p"
  then have "p \<in> set space_runes" and "HasSuffix s p"
    by (auto simp: find_Some_iff)
  then have "0 < length p" and "length p \<le> length s"
    by (auto simp: HasSuffix_def dest: space_runes_nonempty)
  then show "(take (length s - length p) s, s) \<in> measure length"
    by (cases p) auto
qed simp

declare TrimLeft.simps [simp del] TrimRight.simps [simp del]

definition TrimSpace :: "string \<Rightarrow> string" where
  "TrimSpace s = TrimRight (TrimLeft s)"

text \<open>\<^verbatim>\<open>fmt.Sprintf("%d", n)\<close>: the decimal digits, after a minus sign when \<open>n < 0\<close>.\<close>

fun digits :: "nat \<Rightarrow> string" where
  "digits n =
     (if n < 10 then [''0123456789'' ! n]
      else digits (n div 10) @ [''0123456789'' ! (n mod 10)])"

declare digits.simps [simp del]

definition fmt_d :: "int \<Rightarrow> string" where
  "fmt_d n = (if n < 0 then CHR ''-'' # digits (nat (- n)) else digits (nat n))"

text \<open>
  Go's \<^verbatim>\<open>int\<close> has 64 bits on the platforms the server is built for, and \<^verbatim>\<open>++\<close> wraps
  around: \<open>wrap_int\<close> brings a mathematical integer back into the signed range.
\<close>

definition wrap_int :: "int \<Rightarrow> int" where
  "wrap_int i = (i + 2 ^ 63) mod 2 ^ 64 - 2 ^ 63"

text \<open>
  A \<^verbatim>\<open>time.Time\<close>, as far as the layout \<^verbatim>\<open>time.RFC1123\<close>
  (\<^verbatim>\<open>"Mon, 02 Jan 2006 15:04:05 MST"\<close>) reads it. \<open>zone\<close> is the abbreviation of the time
  zone as Go prints it.
\<close>

datatype Weekday = Sunday | Monday | Tuesday | Wednesday | Thursday | Friday | Saturday

datatype Month = January | February | March | April | May | June | July | August
  | September | October | November | December

record Time =
  weekday :: Weekday
  day :: nat
  month :: Month
  year :: nat
  hour :: nat
  minute :: nat
  second :: nat
  zone :: string

fun shortDayName :: "Weekday \<Rightarrow> string" where
  "shortDayName Sunday = ''Sun''"
| "shortDayName Monday = ''Mon''"
| "shortDayName Tuesday = ''Tue''"
| "shortDayName Wednesday = ''Wed''"
| "shortDayName Thursday = ''Thu''"
| "shortDayName Friday = ''Fri''"
| "shortDayName Saturday = ''Sat''"

fun shortMonthName :: "Month \<Rightarrow> string" where
  "shortMonthName January = ''Jan''"
| "shortMonthName February = ''Feb''"
| "shortMonthName March = ''Mar''"
| "shortMonthName April = ''Apr''"
| "shortMonthName May = ''May''"
| "shortMonthName June = ''Jun''"
| "shortMonthName July = ''Jul''"
| "shortMonthName August = ''Aug''"
| "shortMonthName September = ''Sep''"
| "shortMonthName October = ''Oct''"
| "shortMonthName November = ''Nov''"
| "shortMonthName December = ''Dec''"

definition zero_pad :: "nat \<Rightarrow> nat \<Rightarrow> string" where
  "zero_pad w n = replicate (w - length (digits n)) CHR ''0'' @ digits n"

definition Format_RFC1123 :: "Time \<Rightarrow> string" where
  "Format_RFC1123 t =
     shortDayName (weekday t) @ '', '' @ zero_pad 2 (day t) @ '' '' @
     shortMonthName (month t) @ '' '' @ zero_pad 4 (year t) @ '' '' @
     zero_pad 2 (hour t) @ '':'' @ zero_pad 2 (minute t) @ '':'' @
     zero_pad 2 (second t) @ '' '' @ zone t"

text \<open>
  A \<^verbatim>\<open>bufio.Scanner\<close> with the split function \<^verbatim>\<open>ScanLines\<close> and the default buffer.
  \<open>rest\<close> holds the bytes of the file that the reads to come still deliver, \<open>pending\<close>
  the error of the read after them (\<open>None\<close> at the end of the file) and \<open>err\<close> what
  \<^verbatim>\<open>scanner.Err()\<close> returns. A line is a token without its end-of-line marker; a line
  of \<open>MaxScanTokenSize\<close> bytes or more does not fit the buffer and ends the scan with the
  error \<^verbatim>\<open>ErrTooLong\<close>.
\<close>

definition MaxScanTokenSize :: nat where
  "MaxScanTokenSize = 64 * 1024"

definition dropCR :: "string \<Rightarrow> string" where
  "dropCR data = (if data \<noteq> [] \<and> last data = CR then butlast data else data)"

record Scanner =
  rest :: string
  pending :: "string option"
  err :: "string option"

definition ErrTooLong :: string where
  "ErrTooLong = ''bufio.Scanner: token too long''"

definition Scan :: "Scanner \<Rightarrow> string option \<times> Scanner" where
  "Scan sc =
     (let data = rest sc in
      if NL \<in> set data then
        (let line = takeWhile (\<lambda>c. c \<noteq> NL) data in
         if MaxScanTokenSize \<le> length line then (None, sc\<lparr>err := Some ErrTooLong\<rparr>)
         else (Some (dropCR line), sc\<lparr>rest := tl (dropWhile (\<lambda>c. c \<noteq> NL) data)\<rparr>))
      else if MaxScanTokenSize \<le> length data then (None, sc\<lparr>err := Some ErrTooLong\<rparr>)
      else if data = [] then (None, sc\<lparr>err := pending sc\<rparr>)
      else (Some (dropCR data), sc\<lparr>rest := [], err := pending sc\<rparr>))"

lemma length_after_newline:
  "c \<in> set xs \<Longrightarrow> length (tl (dropWhile (\<lambda>x. x \<noteq> c) xs)) < length xs"
proof -
  assume "c \<in> set xs"
  then have "dropWhile (\<lambda>x. x \<noteq> c) xs \<noteq> []"
    by (auto simp: dropWhile_eq_Nil_conv)
  then have "length (tl (dropWhile (\<lambda>x. x \<noteq> c) xs)) < length (dropWhile (\<lambda>x. x \<noteq> c) xs)"
    by (cases "dropWhile (\<lambda>x. x \<noteq> c) xs") auto
  also have "\<dots> \<le> length xs"
    by (rule length_dropWhile_le)
  finally show ?thesis .
qed

lemma Scan_shorter:
  "Scan sc = (Some tok, sc') \<Longrightarrow> length (rest sc') < length (rest sc)"
  by (auto simp: Scan_def Let_def length_after_newline simp del: length_tl split: if_splits)

section \<open>The state of the server\<close>

text \<open>
  A \<^verbatim>\<open>net.Conn\<close> is a handle; two handles are equal when they are the same connection.
  A Go map holds one value for each key: \<^typ>\<open>('k, 'v) alist\<close> is a list of pairs
  whose keys are distinct. \<^verbatim>\<open>range\<close> visits the entries in an order that Go leaves
  open; the model visits them in the order of the list.
\<close>

type_synonym conn = nat

record Task =
  ID :: string
  Description :: string
  Owner :: string

text \<open>
  The package-level variables \<open>clients\<close>, \<open>addr\<close>, \<open>tasks\<close> and \<open>taskIDCounter\<close>,
  then what the server does to the world around it: \<open>history\<close> is the content of the
  file \<^verbatim>\<open>history.log\<close>, \<open>written\<close> the calls of \<^verbatim>\<open>conn.Write\<close> in the order they are
  made, \<open>closed\<close> the calls of \<^verbatim>\<open>conn.Close\<close> and \<open>oplog\<close> the messages given to the
  package \<^verbatim>\<open>log\<close>.
\<close>

record server =
  clients :: "(conn, string) alist"
  addr :: "(conn, string) alist"
  tasks :: "(string, Task) alist"
  taskIDCounter :: int
  history :: string
  written :: "(conn \<times> string) list"
  closed :: "conn list"
  oplog :: "string list"

text \<open>
  What the world decides during one call of the dispatcher: the clock, how many bytes
  \<^verbatim>\<open>logFile.WriteString\<close> gets written (all of them when it succeeds), the error of
  \<^verbatim>\<open>os.Open\<close> on the history log, the number of bytes after which reading the log fails
  and the error it fails with, and the error of \<^verbatim>\<open>conn.Write\<close> on each connection.
\<close>

record env =
  now :: Time
  wrote :: nat
  open_err :: "string option"
  read_err :: "(nat \<times> string) option"
  conn_err :: "conn \<Rightarrow> string option"

definition init :: server where
  "init = \<lparr>clients = DAList.empty, addr = DAList.empty, tasks = DAList.empty,
     taskIDCounter = 0, history = [], written = [], closed = [], oplog = []\<rparr>"

text \<open>Reading a Go map of strings at a key it does not hold gives the empty string.\<close>

definition index :: "('k, string) alist \<Rightarrow> 'k \<Rightarrow> string" where
  "index m k = (case DAList.lookup m k of None \<Rightarrow> [] | Some v \<Rightarrow> v)"

definition Write :: "conn \<Rightarrow> string \<Rightarrow> server \<Rightarrow> server" where
  "Write conn b s = s\<lparr>written := written s @ [(conn, b)]\<rparr>"

definition Close :: "conn \<Rightarrow> server \<Rightarrow> server" where
  "Close conn s = s\<lparr>closed := closed s @ [conn]\<rparr>"

definition Println :: "string \<Rightarrow> server \<Rightarrow> server" where
  "Println l s = s\<lparr>oplog := oplog s @ [l]\<rparr>"

section \<open>The operations of \<^verbatim>\<open>cmd/server/server.go\<close>\<close>

text \<open>
  Each function of the server is a function from the state before the call to the
  state after it. The handlers of different connections run as goroutines; here an
  operation runs to its end before the next one starts, and the sequences of
  operations stand for the interleavings of the handlers. A handle is not used for
  another connection once it is closed. The repository holds a second copy of the
  server without the task ledger: its functions are the ones below, and its dispatcher
  lacks the three branches for \<^verbatim>\<open>/task\<close>.
\<close>

definition broadcastMessage :: "string \<Rightarrow> conn \<Rightarrow> server \<Rightarrow> server" where
  "broadcastMessage message sender s =
     fold (\<lambda>(conn, _) s'. if conn \<noteq> sender then Write conn message s' else s')
       (DAList.impl_of (clients s)) s"

definition sendUsersList :: "conn \<Rightarrow> server \<Rightarrow> server" where
  "sendUsersList conn s =
     (let users = map snd (DAList.impl_of (clients s));
          usersList = Join users '', ''
      in Write conn (''Connected users: '' @ usersList @ [NL]) s)"

definition changeNickname :: "conn \<Rightarrow> string \<Rightarrow> string \<Rightarrow> server \<Rightarrow> string \<times> server" where
  "changeNickname conn nickname newNickname s =
     (let oldNickname = nickname;
          s1 = s\<lparr>clients := DAList.update conn newNickname (clients s)\<rparr>;
          s2 = Write conn (''Nickname changed to '' @ newNickname @ [NL]) s1;
          s3 = Println (''Client '' @ index (addr s2) conn @ '' ('' @ oldNickname @
                 '') changed nickname to '' @ newNickname @ ''.'') s2
      in (newNickname,
          broadcastMessage (CHR 0x27 # oldNickname @ CHR 0x27 # '' changed nickname to '' @
            CHR 0x27 # newNickname @ [CHR 0x27, NL]) conn s3))"

function scan_loop :: "env \<Rightarrow> conn \<Rightarrow> Scanner \<Rightarrow> server \<Rightarrow> Scanner \<times> server" where
  "scan_loop e conn sc s =
     (case Scan sc of
        (None, sc') \<Rightarrow> (sc', s)
      | (Some tok, sc') \<Rightarrow>
          (let s1 = Write conn (tok @ [NL]) s in
           case conn_err e conn of
             Some m \<Rightarrow> (sc', Println (''Error sending history to client: '' @ m) s1)
           | None \<Rightarrow> scan_loop e conn sc' s1))"
  by pat_completeness auto
termination
proof (relation "measure (\<lambda>(e, conn, sc, s). length (rest sc))")
  fix e :: env and conn :: conn and sc sc' :: Scanner and s s1 :: server and x tok
  assume "(x, sc') = Scan sc" and "x = Some tok"
  then have "length (rest sc') < length (rest sc)"
    using Scan_shorter [of sc tok sc'] by simp
  then show "((e, conn, sc', s1), (e, conn, sc, s)) \<in> measure (\<lambda>(e, conn, sc, s). length (rest sc))"
    by simp
qed simp

declare scan_loop.simps [simp del]

definition NewScanner :: "env \<Rightarrow> server \<Rightarrow> Scanner" where
  "NewScanner e s =
     (case read_err e of
        None \<Rightarrow> \<lparr>rest = history s, pending = None, err = None\<rparr>
      | Some (n, m) \<Rightarrow> \<lparr>rest = take n (history s), pending = Some m, err = None\<rparr>)"

definition sendHistory :: "env \<Rightarrow> conn \<Rightarrow> server \<Rightarrow> server" where
  "sendHistory e conn s =
     (case open_err e of
        Some m \<Rightarrow> Write conn (''Error reading history.'' @ [NL]) s
      | None \<Rightarrow>
          (let (scanner, s1) = scan_loop e conn (NewScanner e s) s in
           case err scanner of
             Some m \<Rightarrow>
               Write conn (''Error occurred while reading history.'' @ [NL])
                 (Println (''Error reading from history file: '' @ m) s1)
           | None \<Rightarrow> s1))"

definition logMessage :: "env \<Rightarrow> string \<Rightarrow> string \<Rightarrow> server \<Rightarrow> server" where
  "logMessage e nickname message s =
     (let currentTime = Format_RFC1123 (now e);
          logEntry = currentTime @ '': '' @ nickname @ '' - '' @ message @ [NL]
      in s\<lparr>history := history s @ take (wrote e) logEntry\<rparr>)"

definition addTask :: "conn \<Rightarrow> string \<Rightarrow> string \<Rightarrow> server \<Rightarrow> server" where
  "addTask conn owner description s =
     (let s1 = s\<lparr>taskIDCounter := wrap_int (taskIDCounter s + 1)\<rparr>;
          taskID = fmt_d (taskIDCounter s1);
          s2 = s1\<lparr>tasks := DAList.update taskID
                 \<lparr>ID = taskID, Description = description, Owner = owner\<rparr> (tasks s1)\<rparr>
      in Write conn (''Task added with ID '' @ taskID @ [NL]) s2)"

definition listTasks :: "conn \<Rightarrow> server \<Rightarrow> server" where
  "listTasks conn s =
     (let taskDescriptions =
            map (\<lambda>(_, task). ''ID: '' @ ID task @ '', Owner: '' @ Owner task @
                   '', Description: '' @ Description task)
              (DAList.impl_of (tasks s))
      in if length taskDescriptions = 0 then Write conn (''No tasks found.'' @ [NL]) s
         else Write conn (Join taskDescriptions ''; '' @ [NL]) s)"

definition deleteTask :: "conn \<Rightarrow> string \<Rightarrow> server \<Rightarrow> server" where
  "deleteTask conn taskID s =
     (case DAList.lookup (tasks s) taskID of
        Some _ \<Rightarrow>
          Write conn (''Task deleted successfully.'' @ [NL])
            (s\<lparr>tasks := DAList.delete taskID (tasks s)\<rparr>)
      | None \<Rightarrow> Write conn (''Task not found.'' @ [NL]) s)"

text \<open>
  The dispatcher. \<open>nickname\<close> is the variable of the session's handler that the pointer
  refers to; its value after the call is returned with the state. The open log file is
  the file \<open>history\<close>.
\<close>

definition handleCommands :: "env \<Rightarrow> conn \<Rightarrow> string \<Rightarrow> string \<Rightarrow> server \<Rightarrow> string \<times> server" where
  "handleCommands e conn nickname message s =
     (if HasPrefix message ''/quit'' then
        (nickname, Close conn (Write conn (''Goodbye!'' @ [NL]) s))
      else if HasPrefix message ''/history'' then
        (nickname, sendHistory e conn s)
      else if HasPrefix message ''/nickname'' then
        (let parts = SplitN message SP 2 in
         if length parts = 2 then changeNickname conn nickname (parts ! 1) s
         else (nickname, s))
      else if HasPrefix message ''/users'' then
        (nickname, sendUsersList conn s)
      else if HasPrefix message ''/task add'' then
        (let parts = SplitN message SP 3 in
         if length parts = 3 then (nickname, addTask conn nickname (parts ! 2) s)
         else (nickname, s))
      else if HasPrefix message ''/task list'' then
        (nickname, listTasks conn s)
      else if HasPrefix message ''/task delete'' then
        (let parts = SplitN message SP 3 in
         if length parts = 3 then (nickname, deleteTask conn (parts ! 2) s)
         else (nickname, s))
      else
        (let s1 = logMessage e nickname message s;
             response = nickname @ '': '' @ message @ [NL]
         in (nickname, broadcastMessage response conn s1)))"

text \<open>
  The loop of the handler, over the lines that \<^verbatim>\<open>ReadString\<close> returns without an error,
  each with what the world decides while it is dispatched. Reading from a connection
  that the server has closed fails, which ends the loop like any other read error.
\<close>

fun serve :: "conn \<Rightarrow> string \<Rightarrow> (env \<times> string) list \<Rightarrow> server \<Rightarrow> string \<times> server" where
  "serve conn nickname [] s = (nickname, s)"
| "serve conn nickname ((e, netData) # input) s =
     (if conn \<in> set (closed s) then (nickname, s)
      else (let (nickname', s') = handleCommands e conn nickname (TrimSpace netData) s
            in serve conn nickname' input s'))"

definition register :: "conn \<Rightarrow> string \<Rightarrow> string \<Rightarrow> server \<Rightarrow> server" where
  "register conn remote nickname s =
     s\<lparr>clients := DAList.update conn nickname (clients s),
       addr := DAList.update conn remote (addr s)\<rparr>"

definition deregister :: "conn \<Rightarrow> server \<Rightarrow> server" where
  "deregister conn s =
     Close conn (s\<lparr>clients := DAList.delete conn (clients s),
                   addr := DAList.delete conn (addr s)\<rparr>)"

text \<open>
  The handler of one connection, from its registration to the deferred deregistration.
  \<open>open_error\<close> is the error of \<^verbatim>\<open>os.OpenFile\<close> on the history log, \<open>remote\<close> the string
  of \<^verbatim>\<open>conn.RemoteAddr()\<close> and \<open>input\<close> the lines read before the read that fails.
\<close>

definition handleConnection ::
    "string option \<Rightarrow> conn \<Rightarrow> string \<Rightarrow> (env \<times> string) list \<Rightarrow> server \<Rightarrow> server" where
  "handleConnection open_error conn remote input s =
     (let nickname = ''Anonymous'';
          s1 = register conn remote nickname s
      in case open_error of
           Some m \<Rightarrow> deregister conn (Println (''Error opening history log file: '' @ m) s1)
         | None \<Rightarrow>
             (let s2 = Println (''Client '' @ index (addr s1) conn @ '' ('' @ nickname @
                         '') connected.'') s1;
                  (nickname', s3) = serve conn nickname input s2;
                  s4 = Println (''Client '' @ index (addr s3) conn @ '' ('' @ nickname' @
                         '') disconnected.'') s3;
                  s5 = broadcastMessage (nickname' @ '' disconnected from the chat!'' @ [NL]) conn s4
              in deregister conn s5))"

section \<open>The vocabulary of the properties\<close>

text \<open>
  The prefixes that the dispatcher tests, in the order it tests them; the messages
  written to one connection; the connections of the registry.
\<close>

definition command_prefixes :: "string list" where
  "command_prefixes =
     [''/quit'', ''/history'', ''/nickname'', ''/users'', ''/task add'', ''/task list'',
      ''/task delete'']"

definition received :: "conn \<Rightarrow> server \<Rightarrow> string list" where
  "received c s = map snd (filter (\<lambda>w. fst w = c) (written s))"

definition registered :: "server \<Rightarrow> conn set" where
  "registered s = fst ` set (DAList.impl_of (clients s))"

definition nickname_of :: "server \<Rightarrow> conn \<Rightarrow> string option" where
  "nickname_of s = DAList.lookup (clients s)"

text \<open>The nicknames that the registry holds.\<close>

definition nicknames :: "server \<Rightarrow> string list" where
  "nicknames s = map snd (DAList.impl_of (clients s))"

text \<open>The summary of one task in the reply to \<^verbatim>\<open>/task list\<close>.\<close>

definition summary :: "Task \<Rightarrow> string" where
  "summary t = ''ID: '' @ ID t @ '', Owner: '' @ Owner t @ '', Description: '' @ Description t"

text \<open>
  A sequence of additions and deletions of tasks, by any sessions. \<open>replied_id\<close> reads
  the identifier from the reply \<^verbatim>\<open>Task added with ID <id>\<close> that was written last;
  \<open>assigned\<close> collects the identifiers that the additions of a sequence are given and
  \<open>adds\<close> counts the additions.
\<close>

datatype task_op = Add conn string string | Delete conn string

definition replied_id :: "server \<Rightarrow> string" where
  "replied_id s = butlast (drop (length ''Task added with ID '') (snd (last (written s))))"

fun assigned :: "task_op list \<Rightarrow> server \<Rightarrow> string list" where
  "assigned [] s = []"
| "assigned (Add conn owner description # ops) s =
     replied_id (addTask conn owner description s) #
     assigned ops (addTask conn owner description s)"
| "assigned (Delete conn taskID # ops) s = assigned ops (deleteTask conn taskID s)"

fun adds :: "task_op list \<Rightarrow> nat" where
  "adds [] = 0"
| "adds (Add conn owner description # ops) = Suc (adds ops)"
| "adds (Delete conn taskID # ops) = adds ops"

text \<open>The line of the history log for one message.\<close>

definition logEntry :: "Time \<Rightarrow> string \<Rightarrow> string \<Rightarrow> string" where
  "logEntry t nickname message = Format_RFC1123 t @ '': '' @ nickname @ '' - '' @ message"

text \<open>
  A log file made of lines. A chat message is given by the world of its dispatch, the
  connection and the nickname of its sender and the trimmed line; \<open>chat_all\<close>
  dispatches a sequence of them, in any interleaving of the sessions, \<open>entry_of\<close> is the
  line that the log gets for one and \<open>stored\<close> says that it is a chat message of one
  line whose entry is appended whole.
\<close>

definition unlines :: "string list \<Rightarrow> string" where
  "unlines ls = concat (map (\<lambda>l. l @ [NL]) ls)"

type_synonym chat = "env \<times> conn \<times> string \<times> string"

fun chat_all :: "chat list \<Rightarrow> server \<Rightarrow> server" where
  "chat_all [] s = s"
| "chat_all ((e, c, n, m) # ms) s = chat_all ms (snd (handleCommands e c n m s))"

fun entry_of :: "chat \<Rightarrow> string" where
  "entry_of (e, c, n, m) = logEntry (now e) n m"

fun stored :: "chat \<Rightarrow> bool" where
  "stored (e, c, n, m) \<longleftrightarrow>
     list_all (\<lambda>p. \<not> HasPrefix m p) command_prefixes \<and> TrimSpace m = m \<and>
     NL \<notin> set m \<and> NL \<notin> set n \<and> NL \<notin> set (zone (now e)) \<and>
     length (logEntry (now e) n m) < wrote e"

text \<open>
  Two sessions, Alice on connection 1 and Bob on connection 2, and a world in which
  every operation succeeds.
\<close>

definition example_time :: Time where
  "example_time = \<lparr>weekday = Monday, day = 2, month = January, year = 2006,
     hour = 15, minute = 4, second = 5, zone = ''MST''\<rparr>"

definition example_env :: env where
  "example_env = \<lparr>now = example_time, wrote = 1000, open_err = None, read_err = None,
     conn_err = (\<lambda>_. None)\<rparr>"

definition alice_bob :: server where
  "alice_bob = init\<lparr>
     clients := DAList.update 2 ''Bob'' (DAList.update 1 ''Alice'' DAList.empty),
     addr := DAList.update 2 ''10.0.0.2:5002'' (DAList.update 1 ''10.0.0.1:5001'' DAList.empty)\<rparr>"

text \<open>A world in which nothing can be written to the history log.\<close>

definition disk_full :: env where
  "disk_full = example_env\<lparr>wrote := 0\<rparr>"

text \<open>
  The lines of a third session: a \<^verbatim>\<open>/nickname\<close> followed by a space only, a change of
  nickname sent with a carriage return, and a chat message.
\<close>

definition carol_input :: "(env \<times> string) list" where
  "carol_input =
     [(example_env, ''/nickname '' @ [NL]),
      (example_env, ''/nickname Carol'' @ [CR, NL]),
      (example_env, ''hello'' @ [NL])]"

text \<open>
  Two chat messages; then a chat message as long as the buffer of the scanner, a
  world in which it is written to the log in full, and the state after Alice has sent
  the long message and Bob a short one.
\<close>

definition two_chats :: "chat list" where
  "two_chats = [(example_env, 1, ''Alice'', ''hello''), (example_env, 2, ''Bob'', ''hi there'')]"

definition long_message :: string where
  "long_message = replicate MaxScanTokenSize CHR ''a''"

definition large_write :: env where
  "large_write = example_env\<lparr>wrote := 2 * MaxScanTokenSize\<rparr>"

definition long_then_short :: server where
  "long_then_short =
     snd (handleCommands example_env 2 ''Bob'' ''hi there''
       (snd (handleCommands large_write 1 ''Alice'' long_message alice_bob)))"

text \<open>
  The ledger after Alice has added a task, after Bob has added a second one, and after
  Alice has deleted hers instead.
\<close>

definition one_task :: server where
  "one_task = snd (handleCommands example_env 1 ''Alice'' ''/task add fix bug'' alice_bob)"

definition two_tasks :: server where
  "two_tasks = snd (handleCommands example_env 2 ''Bob'' ''/task add write docs'' one_task)"

definition task_deleted :: server where
  "task_deleted = snd (handleCommands example_env 1 ''Alice'' ''/task delete 1'' one_task)"

section \<open>Facts about the library functions\<close>

lemma HasPrefix_iff: "HasPrefix s p \<longleftrightarrow> (\<exists>r. s = p @ r)"
proof
  assume "HasPrefix s p"
  then have "s = p @ drop (length p) s"
    by (metis HasPrefix_def append_take_drop_id)
  then show "\<exists>r. s = p @ r" ..
next
  assume "\<exists>r. s = p @ r"
  then show "HasPrefix s p"
    by (auto simp: HasPrefix_def)
qed

lemma HasSuffix_single: "HasSuffix t [c] \<longleftrightarrow> t \<noteq> [] \<and> last t = c"
proof (cases t rule: rev_cases)
  case Nil
  then show ?thesis by (simp add: HasSuffix_def)
next
  case (snoc ys y)
  then show ?thesis by (auto simp: HasSuffix_def)
qed

lemma SplitN_2: "SplitN s sep 2 =
  (if sep \<in> set s then [takeWhile (\<lambda>c. c \<noteq> sep) s, tl (dropWhile (\<lambda>c. c \<noteq> sep) s)] else [s])"
  by (simp add: numeral_2_eq_2)

lemma SplitN_3: "SplitN s sep 3 =
  (if sep \<in> set s
   then takeWhile (\<lambda>c. c \<noteq> sep) s # SplitN (tl (dropWhile (\<lambda>c. c \<noteq> sep) s)) sep 2
   else [s])"
  by (simp add: numeral_3_eq_3 numeral_2_eq_2)

lemma TrimRight_no_suffix: "p \<in> set space_runes \<Longrightarrow> \<not> HasSuffix (TrimRight s) p"
proof (induction s rule: TrimRight.induct)
  case (1 s)
  show ?case
  proof (cases "find (HasSuffix s) space_runes")
    case None
    then have "TrimRight s = s"
      by (simp add: TrimRight.simps)
    with None 1(2) show ?thesis
      by (auto simp: find_None_iff)
  next
    case (Some q)
    then have "TrimRight s = TrimRight (take (length s - length q) s)"
      by (simp add: TrimRight.simps)
    with 1 Some show ?thesis
      by simp
  qed
qed

lemma TrimSpace_last: "TrimSpace s = [] \<or> last (TrimSpace s) \<notin> {SP, CR, NL}"
proof -
  have "\<not> HasSuffix (TrimSpace s) [c]" if "c \<in> {SP, CR, NL}" for c
    unfolding TrimSpace_def using that
    by (intro TrimRight_no_suffix) (auto simp: space_runes_def SP_def CR_def NL_def)
  then show ?thesis
    by (auto simp: HasSuffix_single)
qed

lemma tl_dropWhile_Nil:
  assumes "c \<in> set m" and "tl (dropWhile (\<lambda>x. x \<noteq> c) m) = []"
  shows "last m = c"
proof -
  from assms(1) have ne: "dropWhile (\<lambda>x. x \<noteq> c) m \<noteq> []"
    by (auto simp: dropWhile_eq_Nil_conv)
  then have "hd (dropWhile (\<lambda>x. x \<noteq> c) m) = c"
    using hd_dropWhile [of "\<lambda>x. x \<noteq> c" m] by simp
  with ne assms(2) have "dropWhile (\<lambda>x. x \<noteq> c) m = [c]"
    by (cases "dropWhile (\<lambda>x. x \<noteq> c) m") auto
  then have "m = takeWhile (\<lambda>x. x \<noteq> c) m @ [c]"
    by (metis takeWhile_dropWhile_id)
  then show ?thesis
    by (metis last_snoc)
qed

lemma digit_inj: "n < 10 \<Longrightarrow> m < 10 \<Longrightarrow> ''0123456789'' ! n = ''0123456789'' ! m \<Longrightarrow> n = m"
  by (subst (asm) nth_eq_iff_index_eq) auto

lemma digits_nonempty: "digits n \<noteq> []" "[] \<noteq> digits n"
proof -
  show "digits n \<noteq> []"
    by (subst digits.simps) auto
  then show "[] \<noteq> digits n"
    by (rule not_sym)
qed

lemma digits_inj: "digits n = digits m \<Longrightarrow> n = m"
proof (induction n arbitrary: m rule: digits.induct)
  case (1 n)
  show ?case
  proof (cases "n < 10")
    case True
    then have n: "digits n = [''0123456789'' ! n]"
      by (subst digits.simps) simp
    show ?thesis
    proof (cases "m < 10")
      case mt: True
      then have "digits m = [''0123456789'' ! m]"
        by (subst digits.simps) simp
      with n 1(2) True mt show ?thesis
        by (auto dest: digit_inj)
    next
      case False
      then have "digits m = digits (m div 10) @ [''0123456789'' ! (m mod 10)]"
        by (subst digits.simps) simp
      with n 1(2) show ?thesis
        by (simp add: digits_nonempty)
    qed
  next
    case False
    then have n: "digits n = digits (n div 10) @ [''0123456789'' ! (n mod 10)]"
      by (subst digits.simps) simp
    show ?thesis
    proof (cases "m < 10")
      case True
      then have "digits m = [''0123456789'' ! m]"
        by (subst digits.simps) simp
      with n 1(2) show ?thesis
        by (simp add: digits_nonempty)
    next
      case mf: False
      then have "digits m = digits (m div 10) @ [''0123456789'' ! (m mod 10)]"
        by (subst digits.simps) simp
      with n 1(2) have a: "digits (n div 10) = digits (m div 10)"
        and b: "''0123456789'' ! (n mod 10) = ''0123456789'' ! (m mod 10)"
        by simp_all
      from 1(1) [OF False a] have "n div 10 = m div 10" .
      moreover from b have "n mod 10 = m mod 10"
        by (intro digit_inj) simp_all
      ultimately show ?thesis
        by (metis div_mult_mod_eq)
    qed
  qed
qed

lemma digits_no_minus: "CHR ''-'' \<notin> set (digits n)"
proof (induction n rule: digits.induct)
  case (1 n)
  have d: "''0123456789'' ! k \<noteq> CHR ''-''" if "k < 10" for k :: nat
  proof -
    from that have "''0123456789'' ! k \<in> set ''0123456789''"
      by (intro nth_mem) simp
    then show ?thesis by auto
  qed
  show ?case
  proof (cases "n < 10")
    case True
    then have "digits n = [''0123456789'' ! n]"
      by (subst digits.simps) simp
    with d [OF True] show ?thesis by simp
  next
    case False
    then have "digits n = digits (n div 10) @ [''0123456789'' ! (n mod 10)]"
      by (subst digits.simps) simp
    moreover have "''0123456789'' ! (n mod 10) \<noteq> CHR ''-''"
      by (rule d) simp
    ultimately show ?thesis
      using 1 [OF False] by simp
  qed
qed

lemma fmt_d_inj: "fmt_d a = fmt_d b \<Longrightarrow> a = b"
proof -
  assume eq: "fmt_d a = fmt_d b"
  have hd: "hd (digits n) \<noteq> CHR ''-''" for n
    using digits_no_minus [of n] digits_nonempty [of n] by (cases "digits n") auto
  show ?thesis
  proof (cases "a < 0"; cases "b < 0")
    assume "a < 0" "b < 0"
    with eq have "nat (- a) = nat (- b)"
      by (auto simp: fmt_d_def dest: digits_inj)
    with \<open>a < 0\<close> \<open>b < 0\<close> show ?thesis by simp
  next
    assume "a < 0" "\<not> b < 0"
    with eq have "hd (digits (nat b)) = CHR ''-''"
      by (simp add: fmt_d_def) (metis list.sel(1))
    with hd [of "nat b"] show ?thesis
      by simp
  next
    assume "\<not> a < 0" "b < 0"
    with eq have "hd (digits (nat a)) = CHR ''-''"
      by (simp add: fmt_d_def)
    with hd [of "nat a"] show ?thesis
      by simp
  next
    assume "\<not> a < 0" "\<not> b < 0"
    with eq have "nat a = nat b"
      by (auto simp: fmt_d_def dest: digits_inj)
    with \<open>\<not> a < 0\<close> \<open>\<not> b < 0\<close> show ?thesis by simp
  qed
qed

lemma wrap_int_id: "- (2 ^ 63) \<le> i \<Longrightarrow> i < 2 ^ 63 \<Longrightarrow> wrap_int i = i"
  by (simp add: wrap_int_def)

section \<open>The examples\<close>

lemma alice_bob_fields:
  "DAList.impl_of (clients alice_bob) = [(1, ''Alice''), (2, ''Bob'')]"
  "DAList.impl_of (addr alice_bob) = [(1, ''10.0.0.1:5001''), (2, ''10.0.0.2:5002'')]"
  "DAList.impl_of (tasks alice_bob) = []"
  "taskIDCounter alice_bob = 0"
  "history alice_bob = []"
  "written alice_bob = []"
  "closed alice_bob = []"
  "oplog alice_bob = []"
  by (simp_all add: alice_bob_def init_def DAList.update.rep_eq DAList.empty.rep_eq)

lemma example_env_fields:
  "now example_env = example_time"
  "wrote example_env = 1000"
  "open_err example_env = None"
  "read_err example_env = None"
  "conn_err example_env c = None"
  "now disk_full = example_time"
  "wrote disk_full = 0"
  by (simp_all add: example_env_def disk_full_def)

lemma TrimSpace_hello:
  "TrimSpace [CHR ''h'', CHR ''e'', CHR ''l'', CHR ''l'', CHR ''o'', NL] = ''hello''"
  by (simp add: TrimSpace_def TrimLeft.simps TrimRight.simps space_runes_def HasPrefix_def
      HasSuffix_def NL_def)

lemma example_stamp: "Format_RFC1123 example_time = ''Mon, 02 Jan 2006 15:04:05 MST''"
  by (simp add: Format_RFC1123_def example_time_def zero_pad_def digits.simps)

section \<open>Broadcast\<close>

lemma fold_Write:
  "fold (\<lambda>(conn, _) s'. if conn \<noteq> sender then Write conn m s' else s') xs s =
   s\<lparr>written := written s @ map (\<lambda>c. (c, m)) (filter (\<lambda>c. c \<noteq> sender) (map fst xs))\<rparr>"
  by (induction xs arbitrary: s) (auto simp: Write_def)

lemma broadcastMessage_eq:
  "broadcastMessage m sender s =
   s\<lparr>written := written s @
     map (\<lambda>c. (c, m)) (filter (\<lambda>c. c \<noteq> sender) (map fst (DAList.impl_of (clients s))))\<rparr>"
  by (simp add: broadcastMessage_def fold_Write)

lemma recipients_distinct:
  "distinct ks \<Longrightarrow>
   map (\<lambda>c. m) (filter (\<lambda>x. x = c) (filter (\<lambda>x. x \<noteq> sender) ks)) =
   (if c \<in> set ks \<and> c \<noteq> sender then [m] else [])"
  by (induction ks) auto

lemma received_broadcastMessage:
  "received c (broadcastMessage m sender s) =
   received c s @ (if c \<in> registered s \<and> c \<noteq> sender then [m] else [])"
proof -
  let ?ks = "map fst (DAList.impl_of (clients s))"
  have d: "distinct ?ks"
    by simp
  have "map snd (filter (\<lambda>w. fst w = c) (map (\<lambda>c. (c, m)) (filter (\<lambda>c. c \<noteq> sender) ?ks))) =
        map (\<lambda>_. m) (filter (\<lambda>x. x = c) (filter (\<lambda>c. c \<noteq> sender) ?ks))"
    by (simp add: filter_map comp_def)
  also have "\<dots> = (if c \<in> set ?ks \<and> c \<noteq> sender then [m] else [])"
    using d by (rule recipients_distinct)
  finally show ?thesis
    by (simp add: received_def broadcastMessage_eq registered_def)
qed

lemma not_command:
  assumes "\<forall>p \<in> set command_prefixes. \<not> HasPrefix message p"
  shows "handleCommands e conn nickname message s =
    (nickname, broadcastMessage (nickname @ '': '' @ message @ [NL]) conn
       (logMessage e nickname message s))"
  using assms by (simp add: handleCommands_def command_prefixes_def)

text \<open>
  C1. A line that begins with none of the command prefixes is a chat message of the
  session \<open>A\<close> that sends it: the dispatcher writes the formatted message
  \<open>nickname: message\<close> once to every connection of the registry other than \<open>A\<close>, and
  writes nothing to \<open>A\<close> and nothing to a connection outside the registry.
\<close>

theorem broadcast_exclusion:
  assumes "\<forall>p \<in> set command_prefixes. \<not> HasPrefix message p"
  shows "received c (snd (handleCommands e A nickname message s)) =
    received c s @
      (if c \<in> registered s \<and> c \<noteq> A then [nickname @ '': '' @ message @ [NL]] else [])"
  using assms
  by (simp add: not_command received_broadcastMessage)
    (simp add: received_def registered_def logMessage_def Let_def)

theorem broadcast_exclusion_witness:
  "received 2 (snd (handleCommands example_env 1 ''Alice'' ''hello'' alice_bob)) =
     [''Alice: hello'' @ [NL]] \<and>
   received 1 (snd (handleCommands example_env 1 ''Alice'' ''hello'' alice_bob)) = [] \<and>
   received 3 (snd (handleCommands example_env 1 ''Alice'' ''hello'' alice_bob)) = []"
proof -
  have h: "\<forall>p \<in> set command_prefixes. \<not> HasPrefix ''hello'' p"
    by (simp add: command_prefixes_def HasPrefix_def)
  have r: "registered alice_bob = {1, 2}" and w: "written alice_bob = []"
    by (auto simp: registered_def alice_bob_def init_def DAList.update.rep_eq DAList.empty.rep_eq)
  show ?thesis
    using broadcast_exclusion [OF h, of 2 example_env 1 "''Alice''" alice_bob]
      broadcast_exclusion [OF h, of 1 example_env 1 "''Alice''" alice_bob]
      broadcast_exclusion [OF h, of 3 example_env 1 "''Alice''" alice_bob]
    by (simp add: r received_def w)
qed

section \<open>Dispatch\<close>

lemma prefix_excl:
  "HasPrefix m ''/history'' \<Longrightarrow> \<not> HasPrefix m ''/quit''"
  "HasPrefix m ''/nickname'' \<Longrightarrow> \<not> HasPrefix m ''/quit'' \<and> \<not> HasPrefix m ''/history''"
  "HasPrefix m ''/users'' \<Longrightarrow>
     \<not> HasPrefix m ''/quit'' \<and> \<not> HasPrefix m ''/history'' \<and> \<not> HasPrefix m ''/nickname''"
  "HasPrefix m ''/task add'' \<Longrightarrow>
     \<not> HasPrefix m ''/quit'' \<and> \<not> HasPrefix m ''/history'' \<and> \<not> HasPrefix m ''/nickname'' \<and>
     \<not> HasPrefix m ''/users''"
  "HasPrefix m ''/task list'' \<Longrightarrow>
     \<not> HasPrefix m ''/quit'' \<and> \<not> HasPrefix m ''/history'' \<and> \<not> HasPrefix m ''/nickname'' \<and>
     \<not> HasPrefix m ''/users'' \<and> \<not> HasPrefix m ''/task add''"
  "HasPrefix m ''/task delete'' \<Longrightarrow>
     \<not> HasPrefix m ''/quit'' \<and> \<not> HasPrefix m ''/history'' \<and> \<not> HasPrefix m ''/nickname'' \<and>
     \<not> HasPrefix m ''/users'' \<and> \<not> HasPrefix m ''/task add'' \<and> \<not> HasPrefix m ''/task list''"
  by (auto simp: HasPrefix_iff)

lemma quit_eq:
  "HasPrefix m ''/quit'' \<Longrightarrow>
   handleCommands e c n m s = (n, Close c (Write c (''Goodbye!'' @ [NL]) s))"
  by (simp add: handleCommands_def)

lemma history_eq:
  "HasPrefix m ''/history'' \<Longrightarrow> handleCommands e c n m s = (n, sendHistory e c s)"
  by (simp add: handleCommands_def prefix_excl)

lemma nickname_eq:
  "HasPrefix m ''/nickname'' \<Longrightarrow>
   handleCommands e c n m s =
     (if length (SplitN m SP 2) = 2 then changeNickname c n (SplitN m SP 2 ! 1) s else (n, s))"
  by (simp add: handleCommands_def prefix_excl Let_def)

lemma users_eq:
  "HasPrefix m ''/users'' \<Longrightarrow> handleCommands e c n m s = (n, sendUsersList c s)"
  by (simp add: handleCommands_def prefix_excl)

lemma task_add_eq:
  "HasPrefix m ''/task add'' \<Longrightarrow>
   handleCommands e c n m s =
     (if length (SplitN m SP 3) = 3 then (n, addTask c n (SplitN m SP 3 ! 2) s) else (n, s))"
  by (simp add: handleCommands_def prefix_excl Let_def)

lemma task_list_eq:
  "HasPrefix m ''/task list'' \<Longrightarrow> handleCommands e c n m s = (n, listTasks c s)"
  by (simp add: handleCommands_def prefix_excl)

lemma task_delete_eq:
  "HasPrefix m ''/task delete'' \<Longrightarrow>
   handleCommands e c n m s =
     (if length (SplitN m SP 3) = 3 then (n, deleteTask c (SplitN m SP 3 ! 2) s) else (n, s))"
  by (simp add: handleCommands_def prefix_excl Let_def)

lemmas eval_defs = handleCommands_def HasPrefix_def SplitN_2 SplitN_3 SP_def NL_def
  alice_bob_def init_def example_env_def example_time_def
  DAList.update.rep_eq DAList.empty.rep_eq DAList.delete.rep_eq DAList.lookup.rep_eq
  Write_def Close_def Println_def Let_def

lemma count_list_line:
  "sep \<in> set m \<Longrightarrow>
   count_list m sep = Suc (count_list (tl (dropWhile (\<lambda>c. c \<noteq> sep) m)) sep)"
  by (induction m) auto

lemma parts_2: "length (SplitN m sep 2) = 2 \<longleftrightarrow> 1 \<le> count_list m sep"
proof (cases "sep \<in> set m")
  case True
  then show ?thesis
    by (simp add: SplitN_2 count_list_line)
next
  case False
  then show ?thesis
    by (simp add: SplitN_2 count_list_0_iff)
qed

lemma parts_3: "length (SplitN m sep 3) = 3 \<longleftrightarrow> 2 \<le> count_list m sep"
proof (cases "sep \<in> set m")
  case True
  then show ?thesis
    using parts_2 [of "tl (dropWhile (\<lambda>c. c \<noteq> sep) m)" sep]
    by (simp add: SplitN_3 count_list_line)
next
  case False
  then show ?thesis
    by (simp add: SplitN_3 count_list_0_iff)
qed

text \<open>
  C7. The arguments of a command are the fields of the line after the command, cut at
  spaces. A line that begins with \<^verbatim>\<open>/nickname\<close> and has no space, or begins with
  \<^verbatim>\<open>/task add\<close> or \<^verbatim>\<open>/task delete\<close> and has fewer than two spaces, lacks its argument
  (these are the lines for which the dispatcher's test on the number of parts fails).
  It is ignored: the dispatcher returns the nickname and the state as they were, so
  nothing is written to the requester or to anyone, and the registry, the ledger and
  the history are unchanged.
\<close>

theorem malformed_ignored:
  "(HasPrefix m ''/nickname'' \<and> count_list m SP < 1 \<longrightarrow>
      handleCommands e c n m s = (n, s)) \<and>
   (HasPrefix m ''/task add'' \<and> count_list m SP < 2 \<longrightarrow>
      handleCommands e c n m s = (n, s)) \<and>
   (HasPrefix m ''/task delete'' \<and> count_list m SP < 2 \<longrightarrow>
      handleCommands e c n m s = (n, s))"
  by (simp add: nickname_eq task_add_eq task_delete_eq parts_2 parts_3)

theorem malformed_ignored_witness:
  "handleCommands example_env 1 ''Alice'' ''/nickname'' alice_bob = (''Alice'', alice_bob) \<and>
   handleCommands example_env 1 ''Alice'' ''/task add'' alice_bob = (''Alice'', alice_bob) \<and>
   handleCommands example_env 1 ''Alice'' ''/task delete'' alice_bob = (''Alice'', alice_bob)"
  using malformed_ignored [of "''/nickname''" example_env 1 "''Alice''" alice_bob]
    malformed_ignored [of "''/task add''" example_env 1 "''Alice''" alice_bob]
    malformed_ignored [of "''/task delete''" example_env 1 "''Alice''" alice_bob]
  by (simp add: HasPrefix_def SP_def)

lemma scan_loop_frame:
  "\<exists>w l. snd (scan_loop e c sc s) = s\<lparr>written := w, oplog := l\<rparr>"
proof (induction e c sc s rule: scan_loop.induct)
  case (1 e conn sc s)
  show ?case
  proof (cases "Scan sc")
    case (Pair tok sc')
    show ?thesis
    proof (cases tok)
      case None
      with Pair have "snd (scan_loop e conn sc s) = s\<lparr>written := written s, oplog := oplog s\<rparr>"
        by (subst scan_loop.simps) simp
      then show ?thesis by blast
    next
      case (Some t)
      show ?thesis
      proof (cases "conn_err e conn")
        case None
        from 1 [OF Pair [symmetric] Some refl None] obtain w l where
          "snd (scan_loop e conn sc' (Write conn (t @ [NL]) s)) =
           (Write conn (t @ [NL]) s)\<lparr>written := w, oplog := l\<rparr>"
          by blast
        with Pair Some None have "snd (scan_loop e conn sc s) = s\<lparr>written := w, oplog := l\<rparr>"
          by (subst scan_loop.simps) (simp add: Write_def)
        then show ?thesis by blast
      next
        case (Some m)
        with Pair \<open>tok = Some t\<close> have "snd (scan_loop e conn sc s) =
          s\<lparr>written := written s @ [(conn, t @ [NL])],
            oplog := oplog s @ [''Error sending history to client: '' @ m]\<rparr>"
          by (subst scan_loop.simps) (simp add: Write_def Println_def)
        then show ?thesis by blast
      qed
    qed
  qed
qed

lemma sendHistory_frame:
  "\<exists>w l. sendHistory e c s = s\<lparr>written := w, oplog := l\<rparr>"
proof (cases "open_err e")
  case (Some m)
  then have "sendHistory e c s =
      s\<lparr>written := written s @ [(c, ''Error reading history.'' @ [NL])], oplog := oplog s\<rparr>"
    by (simp add: sendHistory_def Write_def)
  then show ?thesis by blast
next
  case None
  obtain sc s1 where l: "scan_loop e c (NewScanner e s) s = (sc, s1)"
    by (cases "scan_loop e c (NewScanner e s) s")
  with scan_loop_frame [of e c "NewScanner e s" s] obtain w l where s1: "s1 = s\<lparr>written := w, oplog := l\<rparr>"
    by auto
  show ?thesis
  proof (cases "err sc")
    case None
    with \<open>open_err e = None\<close> l s1 have "sendHistory e c s = s\<lparr>written := w, oplog := l\<rparr>"
      by (simp add: sendHistory_def)
    then show ?thesis by blast
  next
    case (Some m)
    with \<open>open_err e = None\<close> l s1 have "sendHistory e c s =
      s\<lparr>written := w @ [(c, ''Error occurred while reading history.'' @ [NL])],
        oplog := l @ [''Error reading from history file: '' @ m]\<rparr>"
      by (simp add: sendHistory_def Write_def Println_def)
    then show ?thesis by blast
  qed
qed

lemma history_sendHistory: "history (sendHistory e c s) = history s"
  using sendHistory_frame [of e c s] by auto

lemma history_handlers:
  "history (Close c (Write c b s)) = history s"
  "history (snd (changeNickname c n new s)) = history s"
  "history (sendUsersList c s) = history s"
  "history (addTask c n d s) = history s"
  "history (listTasks c s) = history s"
  "history (deleteTask c i s) = history s"
  by (simp_all add: Close_def Write_def changeNickname_def broadcastMessage_eq Println_def
      sendUsersList_def addTask_def listTasks_def deleteTask_def Let_def split: option.splits)

text \<open>
  C8. Dispatch compares the bytes at the start of the trimmed line with the command
  prefixes, so that letters of the other case do not match: a line that begins with a
  command prefix is handled by the operation of that command, whatever follows the
  prefix, and is not treated as a chat message (nothing is appended to the history);
  a line that begins with none of them is a chat message.
\<close>

theorem prefix_dispatch:
  "(HasPrefix m ''/quit'' \<longrightarrow>
      handleCommands e c n m s = (n, Close c (Write c (''Goodbye!'' @ [NL]) s))) \<and>
   (HasPrefix m ''/history'' \<longrightarrow> handleCommands e c n m s = (n, sendHistory e c s)) \<and>
   (HasPrefix m ''/nickname'' \<longrightarrow>
      handleCommands e c n m s =
        (if length (SplitN m SP 2) = 2 then changeNickname c n (SplitN m SP 2 ! 1) s
         else (n, s))) \<and>
   (HasPrefix m ''/users'' \<longrightarrow> handleCommands e c n m s = (n, sendUsersList c s)) \<and>
   (HasPrefix m ''/task add'' \<longrightarrow>
      handleCommands e c n m s =
        (if length (SplitN m SP 3) = 3 then (n, addTask c n (SplitN m SP 3 ! 2) s)
         else (n, s))) \<and>
   (HasPrefix m ''/task list'' \<longrightarrow> handleCommands e c n m s = (n, listTasks c s)) \<and>
   (HasPrefix m ''/task delete'' \<longrightarrow>
      handleCommands e c n m s =
        (if length (SplitN m SP 3) = 3 then (n, deleteTask c (SplitN m SP 3 ! 2) s)
         else (n, s))) \<and>
   ((\<exists>p \<in> set command_prefixes. HasPrefix m p) \<longrightarrow>
      history (snd (handleCommands e c n m s)) = history s) \<and>
   ((\<forall>p \<in> set command_prefixes. \<not> HasPrefix m p) \<longrightarrow>
      handleCommands e c n m s =
        (n, broadcastMessage (n @ '': '' @ m @ [NL]) c (logMessage e n m s)))"
proof -
  have "handleCommands e c n m s =
      (n, broadcastMessage (n @ '': '' @ m @ [NL]) c (logMessage e n m s))"
    if "\<forall>p \<in> set command_prefixes. \<not> HasPrefix m p"
    using that by (rule not_command)
  moreover have "history (snd (handleCommands e c n m s)) = history s"
    if "\<exists>p \<in> set command_prefixes. HasPrefix m p"
    using that
    by (auto simp: quit_eq history_eq nickname_eq users_eq task_add_eq task_list_eq
        task_delete_eq command_prefixes_def history_sendHistory history_handlers)
  ultimately show ?thesis
    by (simp add: quit_eq history_eq nickname_eq users_eq task_add_eq task_list_eq
        task_delete_eq)
qed

theorem prefix_dispatch_witness:
  "handleCommands example_env 2 ''Bob'' ''/users are great'' alice_bob =
     (''Bob'', sendUsersList 2 alice_bob) \<and>
   written (sendUsersList 2 alice_bob) = [(2, ''Connected users: Alice, Bob'' @ [NL])] \<and>
   history (snd (handleCommands example_env 2 ''Bob'' ''/users are great'' alice_bob)) = [] \<and>
   handleCommands example_env 2 ''Bob'' ''/quit now'' alice_bob =
     (''Bob'', Close 2 (Write 2 (''Goodbye!'' @ [NL]) alice_bob)) \<and>
   handleCommands example_env 2 ''Bob'' ''/history!'' alice_bob =
     (''Bob'', sendHistory example_env 2 alice_bob) \<and>
   handleCommands example_env 2 ''Bob'' ''/nicknames Rob'' alice_bob =
     changeNickname 2 ''Bob'' ''Rob'' alice_bob \<and>
   handleCommands example_env 2 ''Bob'' ''/task address the bug'' alice_bob =
     (''Bob'', addTask 2 ''Bob'' ''the bug'' alice_bob) \<and>
   handleCommands example_env 2 ''Bob'' ''/task listing'' alice_bob =
     (''Bob'', listTasks 2 alice_bob) \<and>
   handleCommands example_env 2 ''Bob'' ''/task delete 1'' alice_bob =
     (''Bob'', deleteTask 2 ''1'' alice_bob) \<and>
   handleCommands example_env 2 ''Bob'' ''/Users are great'' alice_bob =
     (''Bob'', broadcastMessage (''Bob: /Users are great'' @ [NL]) 2
        (logMessage example_env ''Bob'' ''/Users are great'' alice_bob))"
  using prefix_dispatch [of "''/users are great''" example_env 2 "''Bob''" alice_bob]
    prefix_dispatch [of "''/quit now''" example_env 2 "''Bob''" alice_bob]
    prefix_dispatch [of "''/history!''" example_env 2 "''Bob''" alice_bob]
    prefix_dispatch [of "''/nicknames Rob''" example_env 2 "''Bob''" alice_bob]
    prefix_dispatch [of "''/task address the bug''" example_env 2 "''Bob''" alice_bob]
    prefix_dispatch [of "''/task listing''" example_env 2 "''Bob''" alice_bob]
    prefix_dispatch [of "''/task delete 1''" example_env 2 "''Bob''" alice_bob]
    prefix_dispatch [of "''/Users are great''" example_env 2 "''Bob''" alice_bob]
  by (simp add: HasPrefix_def command_prefixes_def sendUsersList_def alice_bob_fields
      Write_def SplitN_2 SplitN_3 SP_def)

section \<open>Tasks\<close>

lemma one_task_eq:
  "one_task = alice_bob\<lparr>
     tasks := DAList.update ''1'' \<lparr>ID = ''1'', Description = ''fix bug'', Owner = ''Alice''\<rparr> DAList.empty,
     taskIDCounter := 1,
     written := [(1, ''Task added with ID 1'' @ [NL])]\<rparr>"
  by (simp add: one_task_def eval_defs addTask_def fmt_d_def wrap_int_def digits.simps)

lemma two_tasks_eq:
  "two_tasks = alice_bob\<lparr>
     tasks := DAList.update ''2'' \<lparr>ID = ''2'', Description = ''write docs'', Owner = ''Bob''\<rparr>
       (DAList.update ''1'' \<lparr>ID = ''1'', Description = ''fix bug'', Owner = ''Alice''\<rparr> DAList.empty),
     taskIDCounter := 2,
     written := [(1, ''Task added with ID 1'' @ [NL]), (2, ''Task added with ID 2'' @ [NL])]\<rparr>"
  by (simp add: two_tasks_def one_task_eq eval_defs addTask_def fmt_d_def wrap_int_def digits.simps)

lemma task_deleted_eq:
  "task_deleted = alice_bob\<lparr>
     tasks := DAList.empty,
     taskIDCounter := 1,
     written := [(1, ''Task added with ID 1'' @ [NL]), (1, ''Task deleted successfully.'' @ [NL])]\<rparr>"
  by (simp add: task_deleted_def one_task_eq eval_defs deleteTask_def alist_eq_iff)

text \<open>
  C9. The reply to \<^verbatim>\<open>/task list\<close> is one write to the requester: the line
  \<^verbatim>\<open>No tasks found.\<close> when the ledger is empty, and otherwise the summaries
  \<^verbatim>\<open>ID: <id>, Owner: <owner>, Description: <description>\<close> of the tasks, one for each
  task, joined with \<^verbatim>\<open>"; "\<close> and ended by a newline. Nothing else changes.
\<close>

theorem task_list_reply:
  assumes "HasPrefix m ''/task list''"
  shows "handleCommands e c n m s =
    (n, Write c
          (if DAList.impl_of (tasks s) = [] then ''No tasks found.'' @ [NL]
           else Join (map (summary \<circ> snd) (DAList.impl_of (tasks s))) ''; '' @ [NL]) s)"
  using assms by (simp add: task_list_eq listTasks_def summary_def split_def comp_def)

theorem task_list_reply_witness:
  "snd (handleCommands example_env 2 ''Bob'' ''/task list'' one_task) =
     Write 2 (''ID: 1, Owner: Alice, Description: fix bug'' @ [NL]) one_task \<and>
   snd (handleCommands example_env 2 ''Bob'' ''/task list'' two_tasks) =
     Write 2 (''ID: 1, Owner: Alice, Description: fix bug; ID: 2, Owner: Bob, Description: write docs''
       @ [NL]) two_tasks \<and>
   snd (handleCommands example_env 2 ''Bob'' ''/task list'' task_deleted) =
     Write 2 (''No tasks found.'' @ [NL]) task_deleted"
proof -
  have h: "HasPrefix ''/task list'' ''/task list''"
    by (simp add: HasPrefix_def)
  have t: "DAList.impl_of (tasks one_task) =
      [(''1'', \<lparr>ID = ''1'', Description = ''fix bug'', Owner = ''Alice''\<rparr>)]"
    "DAList.impl_of (tasks two_tasks) =
      [(''1'', \<lparr>ID = ''1'', Description = ''fix bug'', Owner = ''Alice''\<rparr>),
       (''2'', \<lparr>ID = ''2'', Description = ''write docs'', Owner = ''Bob''\<rparr>)]"
    "DAList.impl_of (tasks task_deleted) = []"
    by (simp_all add: one_task_eq two_tasks_eq task_deleted_eq DAList.update.rep_eq
        DAList.empty.rep_eq)
  show ?thesis
    using task_list_reply [OF h, of example_env 2 "''Bob''" one_task]
      task_list_reply [OF h, of example_env 2 "''Bob''" two_tasks]
      task_list_reply [OF h, of example_env 2 "''Bob''" task_deleted]
    by (simp add: t summary_def)
qed

section \<open>The registry\<close>

text \<open>
  C10. A change of nickname by a registered session \<open>A\<close> leaves the set of registered
  connections, the nickname of every other connection and all remote addresses as they
  were; the entry of \<open>A\<close> holds the new name.
\<close>

theorem nickname_change_frame:
  assumes "A \<in> registered s"
  shows "registered (snd (changeNickname A n new s)) = registered s \<and>
    (\<forall>c. c \<noteq> A \<longrightarrow> nickname_of (snd (changeNickname A n new s)) c = nickname_of s c) \<and>
    addr (snd (changeNickname A n new s)) = addr s \<and>
    nickname_of (snd (changeNickname A n new s)) A = Some new"
proof -
  have c: "clients (snd (changeNickname A n new s)) = DAList.update A new (clients s)"
    and a: "addr (snd (changeNickname A n new s)) = addr s"
    by (simp_all add: changeNickname_def broadcastMessage_eq Println_def Write_def Let_def)
  have "fst ` set (AList.update A new (DAList.impl_of (clients s))) =
        {A} \<union> fst ` set (DAList.impl_of (clients s))"
    by (rule dom_update)
  with assms have "registered (snd (changeNickname A n new s)) = registered s"
    by (auto simp: registered_def c DAList.update.rep_eq)
  with a show ?thesis
    by (simp add: nickname_of_def c)
qed

theorem nickname_change_frame_witness:
  "registered (snd (changeNickname 1 ''Alice'' ''Alicia'' alice_bob)) = {1, 2} \<and>
   nickname_of (snd (changeNickname 1 ''Alice'' ''Alicia'' alice_bob)) 2 = Some ''Bob'' \<and>
   addr (snd (changeNickname 1 ''Alice'' ''Alicia'' alice_bob)) = addr alice_bob \<and>
   nickname_of (snd (changeNickname 1 ''Alice'' ''Alicia'' alice_bob)) 1 = Some ''Alicia''"
proof -
  have r: "registered alice_bob = {1, 2}"
    by (auto simp: registered_def alice_bob_def init_def DAList.update.rep_eq DAList.empty.rep_eq)
  then have h: "1 \<in> registered alice_bob"
    by simp
  have n: "nickname_of alice_bob 2 = Some ''Bob''"
    by (simp add: nickname_of_def alice_bob_def init_def)
  from nickname_change_frame [OF h, of "''Alice''" "''Alicia''"] r n show ?thesis
    by simp
qed

section \<open>The history log\<close>

lemma set_digits: "set (digits n) \<subseteq> set ''0123456789''"
proof (induction n rule: digits.induct)
  case (1 n)
  have d: "''0123456789'' ! k \<in> set ''0123456789''" if "k < 10" for k :: nat
    using that by (intro nth_mem) simp
  show ?case
  proof (cases "n < 10")
    case True
    then have "digits n = [''0123456789'' ! n]"
      by (subst digits.simps) simp
    with d [OF True] show ?thesis by simp
  next
    case False
    then have "digits n = digits (n div 10) @ [''0123456789'' ! (n mod 10)]"
      by (subst digits.simps) simp
    moreover have "''0123456789'' ! (n mod 10) \<in> set ''0123456789''"
      by (rule d) simp
    ultimately show ?thesis
      using 1 [OF False] by simp
  qed
qed

lemma NL_zero_pad: "NL \<notin> set (zero_pad w n)"
  using set_digits [of n] by (auto simp: zero_pad_def NL_def)

lemma NL_names: "NL \<notin> set (shortDayName d)" "NL \<notin> set (shortMonthName m)"
  by (cases d; simp add: NL_def) (cases m; simp add: NL_def)

lemma NL_Format: "NL \<notin> set (zone t) \<Longrightarrow> NL \<notin> set (Format_RFC1123 t)"
  by (simp add: Format_RFC1123_def NL_zero_pad NL_names) (simp add: NL_def)

text \<open>
  C3. The claim asks for the line \<^verbatim>\<open><timestamp> <nickname> - <message>\<close>, with a space
  between the timestamp and the nickname. The code writes a colon and a space there.
  As amended: when the write succeeds and neither the zone abbreviation, the nickname
  nor the message holds a newline, \<open>logMessage\<close> appends exactly one line to the log,
  \<^verbatim>\<open><timestamp>: <nickname> - <message>\<close> followed by a newline, where the timestamp is
  the time of the call in the layout RFC1123; nothing else changes.
\<close>

theorem log_entry_format:
  assumes "length (logEntry (now e) nickname message) < wrote e"
    and "NL \<notin> set (zone (now e))" and "NL \<notin> set nickname" and "NL \<notin> set message"
  shows "logMessage e nickname message s =
      s\<lparr>history := history s @ logEntry (now e) nickname message @ [NL]\<rparr> \<and>
    NL \<notin> set (logEntry (now e) nickname message) \<and>
    logEntry (now e) nickname message =
      Format_RFC1123 (now e) @ '': '' @ nickname @ '' - '' @ message"
proof -
  have "take (wrote e) (logEntry (now e) nickname message @ [NL]) =
      logEntry (now e) nickname message @ [NL]"
    using assms(1) by simp
  then have "logMessage e nickname message s =
      s\<lparr>history := history s @ logEntry (now e) nickname message @ [NL]\<rparr>"
    by (simp add: logMessage_def logEntry_def)
  moreover have "NL \<notin> set (logEntry (now e) nickname message)"
    using assms(2-4) by (simp add: logEntry_def NL_Format) (simp add: NL_def)
  ultimately show ?thesis
    by (simp add: logEntry_def)
qed

theorem log_entry_format_witness:
  "logMessage example_env ''Alice'' ''hello'' init =
     init\<lparr>history := ''Mon, 02 Jan 2006 15:04:05 MST: Alice - hello'' @ [NL]\<rparr> \<and>
   NL \<notin> set ''Mon, 02 Jan 2006 15:04:05 MST: Alice - hello''"
  using log_entry_format [of example_env "''Alice''" "''hello''" init]
  by (simp add: logEntry_def example_stamp example_env_def) (simp add: example_time_def NL_def init_def)

theorem log_entry_format_counterexample:
  "history (logMessage example_env ''Alice'' ''hello'' init) =
     ''Mon, 02 Jan 2006 15:04:05 MST: Alice - hello'' @ [NL] \<and>
   history (logMessage example_env ''Alice'' ''hello'' init) \<noteq>
     Format_RFC1123 example_time @ '' '' @ ''Alice'' @ '' - '' @ ''hello'' @ [NL]"
  by (simp add: logMessage_def example_stamp example_env_def init_def)

section \<open>Failures of the history log\<close>

lemma delete_update_same:
  "DAList.delete k (DAList.update k v m) = DAList.delete k m"
  by (simp add: alist_eq_iff DAList.delete.rep_eq DAList.update.rep_eq AList.delete_update_same)

text \<open>
  C2. The claim says that a failure to open the log does not end the session and that
  a failure to append is logged. In the code the handler logs the failure to open and
  returns. As amended: when opening the log fails, the error is logged for the
  operator and the session ends at once, its connection deregistered and closed and
  none of its input dispatched; when appending fails, entirely or after some bytes,
  the chat message is still broadcast to the other sessions, only the history entry is
  lost and nothing is logged.
\<close>

theorem persistence_errors:
  "handleConnection (Some m) conn remote input s =
     Close conn (s\<lparr>clients := DAList.delete conn (clients s),
                   addr := DAList.delete conn (addr s),
                   oplog := oplog s @ [''Error opening history log file: '' @ m]\<rparr>) \<and>
   ((\<forall>p \<in> set command_prefixes. \<not> HasPrefix message p) \<longrightarrow>
    snd (handleCommands e c nickname message s) =
      (broadcastMessage (nickname @ '': '' @ message @ [NL]) c s)
        \<lparr>history := history s @ take (wrote e) (logEntry (now e) nickname message @ [NL])\<rparr>)"
proof -
  have "handleConnection (Some m) conn remote input s =
     Close conn (s\<lparr>clients := DAList.delete conn (clients s),
                   addr := DAList.delete conn (addr s),
                   oplog := oplog s @ [''Error opening history log file: '' @ m]\<rparr>)"
    by (simp add: handleConnection_def register_def deregister_def Println_def Close_def
        delete_update_same)
  moreover have "snd (handleCommands e c nickname message s) =
      (broadcastMessage (nickname @ '': '' @ message @ [NL]) c s)
        \<lparr>history := history s @ take (wrote e) (logEntry (now e) nickname message @ [NL])\<rparr>"
    if "\<forall>p \<in> set command_prefixes. \<not> HasPrefix message p"
    using that by (simp add: not_command broadcastMessage_eq logMessage_def logEntry_def Let_def)
  ultimately show ?thesis
    by simp
qed

theorem persistence_errors_witness:
  "closed (handleConnection (Some ''permission denied'') 3 ''10.0.0.3:5003''
     [(example_env, ''hello'' @ [NL])] alice_bob) = [3] \<and>
   oplog (handleConnection (Some ''permission denied'') 3 ''10.0.0.3:5003''
     [(example_env, ''hello'' @ [NL])] alice_bob) =
     [''Error opening history log file: permission denied''] \<and>
   written (handleConnection (Some ''permission denied'') 3 ''10.0.0.3:5003''
     [(example_env, ''hello'' @ [NL])] alice_bob) = [] \<and>
   written (snd (handleCommands disk_full 1 ''Alice'' ''hello'' alice_bob)) =
     [(2, ''Alice: hello'' @ [NL])] \<and>
   history (snd (handleCommands disk_full 1 ''Alice'' ''hello'' alice_bob)) = [] \<and>
   oplog (snd (handleCommands disk_full 1 ''Alice'' ''hello'' alice_bob)) = []"
proof -
  have h: "\<forall>p \<in> set command_prefixes. \<not> HasPrefix ''hello'' p"
    by (simp add: command_prefixes_def HasPrefix_def)
  from persistence_errors [of "''permission denied''" 3 "''10.0.0.3:5003''"
      "[(example_env, ''hello'' @ [NL])]" alice_bob "''hello''" disk_full 1 "''Alice''"] h
  show ?thesis
    by (simp add: Close_def broadcastMessage_eq alice_bob_fields example_env_fields)
qed

theorem persistence_errors_counterexample:
  "closed (handleConnection (Some ''permission denied'') 3 ''10.0.0.3:5003''
     [(example_env, ''hello'' @ [NL])] alice_bob) = [3] \<and>
   written (handleConnection (Some ''permission denied'') 3 ''10.0.0.3:5003''
     [(example_env, ''hello'' @ [NL])] alice_bob) = [] \<and>
   written (handleConnection None 3 ''10.0.0.3:5003''
     [(example_env, ''hello'' @ [NL])] alice_bob) =
     [(1, ''Anonymous: hello'' @ [NL]), (2, ''Anonymous: hello'' @ [NL]),
      (1, ''Anonymous disconnected from the chat!'' @ [NL]),
      (2, ''Anonymous disconnected from the chat!'' @ [NL])] \<and>
   oplog (snd (handleCommands disk_full 1 ''Alice'' ''hello'' alice_bob)) = []"
  by (simp add: handleConnection_def register_def deregister_def TrimSpace_hello
      handleCommands_def HasPrefix_def logMessage_def broadcastMessage_eq Close_def Println_def
      Let_def alice_bob_fields example_env_fields DAList.update.rep_eq DAList.delete.rep_eq)

section \<open>Nicknames\<close>

lemma clients_sendHistory: "clients (sendHistory e c s) = clients s"
  using sendHistory_frame [of e c s] by auto

lemma clients_changeNickname:
  "clients (snd (changeNickname c n new s)) = DAList.update c new (clients s)"
  "fst (changeNickname c n new s) = new"
  by (simp_all add: changeNickname_def broadcastMessage_eq Println_def Write_def Let_def)

lemma clients_handleCommands:
  "clients (snd (handleCommands e c n m s)) =
     (if HasPrefix m ''/nickname'' \<and> length (SplitN m SP 2) = 2
      then DAList.update c (SplitN m SP 2 ! 1) (clients s) else clients s)"
  "fst (handleCommands e c n m s) =
     (if HasPrefix m ''/nickname'' \<and> length (SplitN m SP 2) = 2
      then SplitN m SP 2 ! 1 else n)"
proof -
  show "clients (snd (handleCommands e c n m s)) =
     (if HasPrefix m ''/nickname'' \<and> length (SplitN m SP 2) = 2
      then DAList.update c (SplitN m SP 2 ! 1) (clients s) else clients s)"
  proof (cases "HasPrefix m ''/nickname''")
    case True
    then show ?thesis
      by (simp add: nickname_eq clients_changeNickname)
  next
    case False
    then show ?thesis
      by (simp add: handleCommands_def clients_sendHistory Close_def Write_def sendUsersList_def
          addTask_def listTasks_def deleteTask_def logMessage_def broadcastMessage_eq Let_def
          split: option.splits)
  qed
  show "fst (handleCommands e c n m s) =
     (if HasPrefix m ''/nickname'' \<and> length (SplitN m SP 2) = 2
      then SplitN m SP 2 ! 1 else n)"
  proof (cases "HasPrefix m ''/nickname''")
    case True
    then show ?thesis
      by (simp add: nickname_eq clients_changeNickname)
  next
    case False
    then show ?thesis
      by (simp add: handleCommands_def Let_def)
  qed
qed

lemma argument_nonempty:
  assumes "length (SplitN (TrimSpace raw) SP 2) = 2"
  shows "SplitN (TrimSpace raw) SP 2 ! 1 \<noteq> []"
proof
  let ?m = "TrimSpace raw"
  assume e: "SplitN ?m SP 2 ! 1 = []"
  from assms have sp: "SP \<in> set ?m"
    by (simp add: SplitN_2 split: if_splits)
  with e have "tl (dropWhile (\<lambda>c. c \<noteq> SP) ?m) = []"
    by (simp add: SplitN_2)
  with sp have "last ?m = SP"
    by (rule tl_dropWhile_Nil)
  moreover from sp have "?m \<noteq> []"
    by auto
  ultimately show False
    using TrimSpace_last [of raw] by simp
qed

lemma set_update_values:
  "set (map snd (AList.update k v al)) \<subseteq> insert v (set (map snd al))"
  by (induction al) auto

lemma nicknames_update:
  "new \<noteq> [] \<Longrightarrow> [] \<notin> set (map snd (DAList.impl_of m)) \<Longrightarrow>
   [] \<notin> set (map snd (DAList.impl_of (DAList.update c new m)))"
  using set_update_values [of c new "DAList.impl_of m"]
  by (auto simp: DAList.update.rep_eq)

lemma handleCommands_nickname:
  assumes "[] \<notin> set (nicknames s)" and "n \<noteq> []" and "nickname_of s c = Some n"
  shows "[] \<notin> set (nicknames (snd (handleCommands e c n (TrimSpace raw) s))) \<and>
    fst (handleCommands e c n (TrimSpace raw) s) \<noteq> [] \<and>
    nickname_of (snd (handleCommands e c n (TrimSpace raw) s)) c =
      Some (fst (handleCommands e c n (TrimSpace raw) s))"
proof (cases "HasPrefix (TrimSpace raw) ''/nickname'' \<and> length (SplitN (TrimSpace raw) SP 2) = 2")
  case True
  let ?new = "SplitN (TrimSpace raw) SP 2 ! 1"
  from True have new: "?new \<noteq> []"
    by (intro argument_nonempty) simp
  from True have "clients (snd (handleCommands e c n (TrimSpace raw) s)) =
      DAList.update c ?new (clients s)"
    and "fst (handleCommands e c n (TrimSpace raw) s) = ?new"
    by (simp_all add: clients_handleCommands)
  with new assms(1) nicknames_update [OF new, of "clients s" c] show ?thesis
    by (simp add: nicknames_def nickname_of_def)
next
  case False
  then have "clients (snd (handleCommands e c n (TrimSpace raw) s)) = clients s"
    and "fst (handleCommands e c n (TrimSpace raw) s) = n"
    by (auto simp: clients_handleCommands)
  with assms show ?thesis
    by (simp add: nicknames_def nickname_of_def)
qed

lemma serve_nickname:
  assumes "[] \<notin> set (nicknames s)" and "n \<noteq> []" and "nickname_of s c = Some n"
  shows "[] \<notin> set (nicknames (snd (serve c n input s))) \<and>
    fst (serve c n input s) \<noteq> [] \<and>
    nickname_of (snd (serve c n input s)) c = Some (fst (serve c n input s))"
  using assms
proof (induction input arbitrary: n s)
  case Nil
  then show ?case by simp
next
  case (Cons a input)
  obtain e raw where a: "a = (e, raw)"
    by (cases a)
  show ?case
  proof (cases "c \<in> set (closed s)")
    case True
    with Cons.prems a show ?thesis by simp
  next
    case False
    obtain n' s' where h: "handleCommands e c n (TrimSpace raw) s = (n', s')"
      by (cases "handleCommands e c n (TrimSpace raw) s")
    with handleCommands_nickname [OF Cons.prems, of e raw]
    have "[] \<notin> set (nicknames s')" "n' \<noteq> []" "nickname_of s' c = Some n'"
      by simp_all
    from Cons.IH [OF this] False a h show ?thesis
      by simp
  qed
qed

lemma TrimSpace_examples:
  "TrimSpace (''/nickname '' @ [NL]) = ''/nickname''"
  "TrimSpace (''/nickname Carol'' @ [CR, NL]) = ''/nickname Carol''"
  by (simp_all add: TrimSpace_def TrimLeft.simps TrimRight.simps space_runes_def HasPrefix_def
      HasSuffix_def NL_def CR_def)

lemma carol_run:
  "fst (serve 3 ''Anonymous'' carol_input
           (Println ''Client 10.0.0.3:5003 (Anonymous) connected.''
              (register 3 ''10.0.0.3:5003'' ''Anonymous'' alice_bob))) = ''Carol''"
  "nicknames (snd (serve 3 ''Anonymous'' carol_input
           (Println ''Client 10.0.0.3:5003 (Anonymous) connected.''
              (register 3 ''10.0.0.3:5003'' ''Anonymous'' alice_bob)))) = [''Alice'', ''Bob'', ''Carol'']"
  by (simp_all add: carol_input_def nicknames_def clients_handleCommands split_def
       TrimSpace_def TrimLeft.simps TrimRight.simps space_runes_def HasPrefix_def
      HasSuffix_def NL_def CR_def SplitN_2 SP_def register_def Println_def
      handleCommands_def changeNickname_def broadcastMessage_eq Write_def
      alice_bob_fields DAList.update.rep_eq logMessage_def Let_def)

text \<open>
  C6. When no nickname of the registry is empty and a session is accepted, then after
  any sequence of lines that its handler dispatches no nickname of the registry is
  empty, the nickname of the handler is not empty and it is the one the registry holds
  for the connection: it starts as \<^verbatim>\<open>Anonymous\<close>, and the argument of \<^verbatim>\<open>/nickname\<close> on a
  trimmed line is never empty. \<open>changeNickname\<close> itself accepts the empty string.
\<close>

theorem nickname_never_empty:
  assumes "[] \<notin> set (nicknames s)"
  shows "[] \<notin> set (nicknames (snd (serve conn ''Anonymous'' input
           (Println l (register conn remote ''Anonymous'' s))))) \<and>
    fst (serve conn ''Anonymous'' input (Println l (register conn remote ''Anonymous'' s))) \<noteq> [] \<and>
    nickname_of (snd (serve conn ''Anonymous'' input
        (Println l (register conn remote ''Anonymous'' s)))) conn =
      Some (fst (serve conn ''Anonymous'' input (Println l (register conn remote ''Anonymous'' s)))) \<and>
    nickname_of (snd (changeNickname conn nickname [] s)) conn = Some []"
proof -
  have 1: "[] \<notin> set (nicknames (Println l (register conn remote ''Anonymous'' s)))"
    using assms nicknames_update [of "''Anonymous''" "clients s" conn]
    by (simp add: nicknames_def register_def Println_def)
  have 2: "nickname_of (Println l (register conn remote ''Anonymous'' s)) conn = Some ''Anonymous''"
    by (simp add: nickname_of_def register_def Println_def)
  have 3: "nickname_of (snd (changeNickname conn nickname [] s)) conn = Some []"
    by (simp add: nickname_of_def clients_changeNickname)
  from serve_nickname [OF 1 _ 2, of input] 3 show ?thesis
    by simp
qed

theorem nickname_never_empty_witness:
  "[] \<notin> set (nicknames (snd (serve 3 ''Anonymous'' carol_input
           (Println ''Client 10.0.0.3:5003 (Anonymous) connected.''
              (register 3 ''10.0.0.3:5003'' ''Anonymous'' alice_bob))))) \<and>
   nicknames (snd (serve 3 ''Anonymous'' carol_input
           (Println ''Client 10.0.0.3:5003 (Anonymous) connected.''
              (register 3 ''10.0.0.3:5003'' ''Anonymous'' alice_bob)))) =
     [''Alice'', ''Bob'', ''Carol''] \<and>
   fst (serve 3 ''Anonymous'' carol_input
           (Println ''Client 10.0.0.3:5003 (Anonymous) connected.''
              (register 3 ''10.0.0.3:5003'' ''Anonymous'' alice_bob))) = ''Carol'' \<and>
   nickname_of (snd (changeNickname 3 ''Anonymous'' [] alice_bob)) 3 = Some []"
proof -
  have h: "[] \<notin> set (nicknames alice_bob)"
    by (simp add: nicknames_def alice_bob_fields)
  from nickname_never_empty [OF h, of 3 carol_input
      "''Client 10.0.0.3:5003 (Anonymous) connected.''" "''10.0.0.3:5003''" "''Anonymous''"]
  show ?thesis
    by (simp add: carol_run)
qed

section \<open>Task identifiers\<close>

lemma addTask_fields:
  "taskIDCounter (addTask c owner d s) = wrap_int (taskIDCounter s + 1)"
  "replied_id (addTask c owner d s) = fmt_d (wrap_int (taskIDCounter s + 1))"
  "DAList.lookup (tasks (addTask c owner d s)) (fmt_d (wrap_int (taskIDCounter s + 1))) =
     Some \<lparr>ID = fmt_d (wrap_int (taskIDCounter s + 1)), Description = d, Owner = owner\<rparr>"
  by (simp_all add: addTask_def replied_id_def Write_def Let_def)

lemma deleteTask_counter: "taskIDCounter (deleteTask c i s) = taskIDCounter s"
  by (simp add: deleteTask_def Write_def split: option.splits)

lemma assigned_eq:
  "- (2 ^ 63) \<le> taskIDCounter s \<Longrightarrow> taskIDCounter s + int (adds ops) < 2 ^ 63 \<Longrightarrow>
   assigned ops s = map fmt_d [taskIDCounter s + 1 .. taskIDCounter s + int (adds ops)]"
proof (induction ops arbitrary: s)
  case Nil
  then show ?case by simp
next
  case (Cons op ops)
  show ?case
  proof (cases op)
    case (Add c owner d)
    let ?s = "addTask c owner d s"
    from Cons.prems Add have k: "taskIDCounter ?s = taskIDCounter s + 1"
      by (simp add: addTask_fields wrap_int_id)
    with Cons.prems Add have "assigned ops ?s =
        map fmt_d [taskIDCounter ?s + 1 .. taskIDCounter ?s + int (adds ops)]"
      by (intro Cons.IH) simp_all
    moreover have "[taskIDCounter s + 1 .. taskIDCounter s + int (adds (op # ops))] =
        (taskIDCounter s + 1) # [taskIDCounter ?s + 1 .. taskIDCounter ?s + int (adds ops)]"
      using Add k by (subst upto_rec1) (simp_all add: add.commute add.left_commute)
    ultimately show ?thesis
      using Add k by (simp add: addTask_fields)
  next
    case (Delete c i)
    with Cons.prems Cons.IH [of "deleteTask c i s"] show ?thesis
      by (simp add: deleteTask_counter)
  qed
qed

text \<open>
  C5. As long as the counter stays within the 64 bits of a Go \<^verbatim>\<open>int\<close>, the identifiers
  given by the additions of any sequence of additions and deletions are the decimal
  numerals of \<open>k + 1\<close>, \<open>k + 2\<close>, \<open>\<dots>\<close> in this order, where \<open>k\<close> is the counter at the
  start: they increase strictly whatever is deleted in between, and no two of them are
  the same string, so no identifier is used again.
\<close>

theorem task_ids_increasing:
  assumes "- (2 ^ 63) \<le> taskIDCounter s" and "taskIDCounter s + int (adds ops) < 2 ^ 63"
  shows "assigned ops s = map fmt_d [taskIDCounter s + 1 .. taskIDCounter s + int (adds ops)] \<and>
    distinct (assigned ops s)"
proof -
  have "inj fmt_d"
    by (rule injI) (rule fmt_d_inj)
  then have "distinct (map fmt_d [taskIDCounter s + 1 .. taskIDCounter s + int (adds ops)])"
    by (simp add: distinct_map inj_on_def)
  with assigned_eq [OF assms] show ?thesis
    by simp
qed

theorem task_ids_increasing_witness:
  "assigned [Add 1 ''Alice'' ''fix bug'', Delete 1 ''1'', Add 2 ''Bob'' ''write docs'',
     Add 1 ''Alice'' ''fix bug''] alice_bob = [''1'', ''2'', ''3'']"
proof -
  have f: "fmt_d 1 = ''1''" "fmt_d 2 = ''2''" "fmt_d 3 = ''3''"
    by (simp_all add: fmt_d_def digits.simps)
  have u: "[1 .. 3 :: int] = [1, 2, 3]"
    by (simp add: upto_rec1)
  from task_ids_increasing [of alice_bob "[Add 1 ''Alice'' ''fix bug'', Delete 1 ''1'',
     Add 2 ''Bob'' ''write docs'', Add 1 ''Alice'' ''fix bug'']"]
  show ?thesis
    by (simp add: alice_bob_fields f u)
qed

section \<open>Replaying the history\<close>

lemma takeWhile_line: "NL \<notin> set l \<Longrightarrow> takeWhile (\<lambda>c. c \<noteq> NL) (l @ NL # r) = l"
  by (induction l) auto

lemma dropWhile_line: "NL \<notin> set l \<Longrightarrow> dropWhile (\<lambda>c. c \<noteq> NL) (l @ NL # r) = NL # r"
  by (induction l) auto

lemma Scan_line:
  assumes "NL \<notin> set l" and "length l < MaxScanTokenSize"
  shows "Scan \<lparr>rest = l @ NL # r, pending = p, err = x\<rparr> =
    (Some (dropCR l), \<lparr>rest = r, pending = p, err = x\<rparr>)"
  using assms by (simp add: Scan_def takeWhile_line dropWhile_line)

lemma Scan_long:
  assumes "NL \<notin> set l" and "MaxScanTokenSize \<le> length l"
  shows "Scan \<lparr>rest = l @ NL # r, pending = p, err = x\<rparr> =
    (None, \<lparr>rest = l @ NL # r, pending = p, err = Some ErrTooLong\<rparr>)"
  using assms by (simp add: Scan_def takeWhile_line)

lemma Scan_end:
  "Scan \<lparr>rest = [], pending = p, err = x\<rparr> = (None, \<lparr>rest = [], pending = p, err = p\<rparr>)"
  by (simp add: Scan_def MaxScanTokenSize_def)

lemma scan_loop_lines:
  assumes "conn_err e c = None"
    and "list_all (\<lambda>l. NL \<notin> set l \<and> length l < MaxScanTokenSize) ls"
  shows "scan_loop e c \<lparr>rest = unlines ls, pending = None, err = None\<rparr> s =
    (\<lparr>rest = [], pending = None, err = None\<rparr>,
     s\<lparr>written := written s @ map (\<lambda>l. (c, dropCR l @ [NL])) ls\<rparr>)"
  using assms(2)
proof (induction ls arbitrary: s)
  case Nil
  show ?case
    by (subst scan_loop.simps) (simp add: unlines_def Scan_end)
next
  case (Cons l ls)
  then have l: "NL \<notin> set l" "length l < MaxScanTokenSize"
    and ls: "list_all (\<lambda>l. NL \<notin> set l \<and> length l < MaxScanTokenSize) ls"
    by simp_all
  have u: "unlines (l # ls) = l @ NL # unlines ls"
    by (simp add: unlines_def)
  show ?case
    by (subst scan_loop.simps)
      (simp add: u Scan_line [OF l] assms(1) Cons.IH [OF ls] Write_def)
qed

lemma sendHistory_lines:
  assumes "open_err e = None" and "read_err e = None" and "conn_err e c = None"
    and "history s = unlines ls"
    and "list_all (\<lambda>l. NL \<notin> set l \<and> length l < MaxScanTokenSize) ls"
  shows "sendHistory e c s = s\<lparr>written := written s @ map (\<lambda>l. (c, dropCR l @ [NL])) ls\<rparr>"
  using assms(1,2,4) scan_loop_lines [OF assms(3,5), of s]
  by (simp add: sendHistory_def NewScanner_def)

lemma chat_history:
  assumes "list_all (\<lambda>p. \<not> HasPrefix m p) command_prefixes"
    and "length (logEntry (now e) n m) < wrote e"
  shows "history (snd (handleCommands e c n m s)) = history s @ logEntry (now e) n m @ [NL]"
proof -
  from assms(1) have "\<forall>p \<in> set command_prefixes. \<not> HasPrefix m p"
    by (simp add: list_all_iff)
  then show ?thesis
    using assms(2)
    by (simp add: not_command broadcastMessage_eq logMessage_def logEntry_def Let_def)
qed

lemma chat_all_history:
  "list_all stored ms \<Longrightarrow> history (chat_all ms s) = history s @ unlines (map entry_of ms)"
proof (induction ms arbitrary: s)
  case Nil
  then show ?case by (simp add: unlines_def)
next
  case (Cons x ms)
  obtain e c n m where x: "x = (e, c, n, m)"
    by (cases x)
  with Cons.prems have "history (snd (handleCommands e c n m s)) =
      history s @ logEntry (now e) n m @ [NL]"
    by (intro chat_history) simp_all
  with Cons x show ?case
    by (simp add: unlines_def)
qed

lemma NL_logEntry:
  "NL \<notin> set (zone t) \<Longrightarrow> NL \<notin> set n \<Longrightarrow> NL \<notin> set m \<Longrightarrow> NL \<notin> set (logEntry t n m)"
  by (simp add: logEntry_def NL_Format) (simp add: NL_def)

lemma dropCR_logEntry:
  assumes "TrimSpace m = m"
  shows "dropCR (logEntry t n m) = logEntry t n m"
proof (cases "m = []")
  case True
  then show ?thesis
    by (simp add: dropCR_def logEntry_def CR_def)
next
  case False
  with TrimSpace_last [of m] assms have "last m \<noteq> CR"
    by simp
  with False show ?thesis
    by (simp add: dropCR_def logEntry_def)
qed

lemma stored_entry:
  assumes "stored x"
  shows "NL \<notin> set (entry_of x)" and "dropCR (entry_of x) = entry_of x"
proof -
  obtain e c n m where x: "x = (e, c, n, m)"
    by (cases x)
  with assms show "NL \<notin> set (entry_of x)"
    by (simp add: NL_logEntry)
  from x assms show "dropCR (entry_of x) = entry_of x"
    by (simp add: dropCR_logEntry)
qed

lemma unlines_append: "unlines (xs @ ys) = unlines xs @ unlines ys"
  by (simp add: unlines_def)

lemma TrimSpace_fixed:
  "TrimSpace ''hello'' = ''hello''"
  "TrimSpace ''hi there'' = ''hi there''"
  by (simp_all add: TrimSpace_def TrimLeft.simps TrimRight.simps space_runes_def HasPrefix_def
      HasSuffix_def)

lemma two_chats_run:
  "written (chat_all two_chats alice_bob) =
     [(2, ''Alice: hello'' @ [NL]), (1, ''Bob: hi there'' @ [NL])]"
  by (simp add: two_chats_def handleCommands_def HasPrefix_def logMessage_def
      broadcastMessage_eq Let_def alice_bob_fields)

lemma no_slash:
  assumes "m \<noteq> []" and "hd m \<noteq> CHR ''/''"
  shows "\<forall>p \<in> set command_prefixes. \<not> HasPrefix m p"
  using assms by (auto simp: command_prefixes_def HasPrefix_iff)

lemma long_message_chat: "\<forall>p \<in> set command_prefixes. \<not> HasPrefix long_message p"
  by (rule no_slash) (simp_all add: long_message_def MaxScanTokenSize_def hd_replicate)

lemma long_entry:
  "NL \<notin> set (logEntry example_time ''Alice'' long_message)"
  "MaxScanTokenSize \<le> length (logEntry example_time ''Alice'' long_message)"
  "length (logEntry example_time ''Alice'' long_message @ [NL]) \<le> wrote large_write"
  by (simp_all add: logEntry_def example_stamp long_message_def large_write_def)
    (simp_all add: NL_def MaxScanTokenSize_def)

lemma long_sent:
  "snd (handleCommands large_write 1 ''Alice'' long_message alice_bob) =
     alice_bob\<lparr>history := logEntry example_time ''Alice'' long_message @ [NL],
       written := [(2, ''Alice: '' @ long_message @ [NL])]\<rparr>"
  using long_entry(3)
  by (simp add: not_command [OF long_message_chat] broadcastMessage_eq logMessage_def
      alice_bob_fields Let_def)
    (simp add: logEntry_def large_write_def example_env_fields alice_bob_def init_def)

text \<open>
  On a log made of lines shorter than \<open>MaxScanTokenSize\<close> the replay writes every line
  to the requester, in order, and does nothing else: the earlier lines, then one line
  for each chat message that was appended whole, with the timestamp, the nickname of
  the sender and the text of the message.
\<close>

lemma replay_short_lines:
  assumes "history s = unlines old"
    and "list_all (\<lambda>l. NL \<notin> set l \<and> length l < MaxScanTokenSize) old"
    and "list_all stored ms"
    and "list_all (\<lambda>x. length (entry_of x) < MaxScanTokenSize) ms"
    and "HasPrefix line ''/history''"
    and "open_err e = None" and "read_err e = None" and "conn_err e c = None"
  shows "handleCommands e c n line (chat_all ms s) =
    (n, (chat_all ms s)\<lparr>written := written (chat_all ms s) @
       map (\<lambda>l. (c, l @ [NL])) (map dropCR old @ map entry_of ms)\<rparr>)"
proof -
  have h: "history (chat_all ms s) = unlines (old @ map entry_of ms)"
    using assms(1,3) by (simp add: chat_all_history unlines_append)
  have "NL \<notin> set (entry_of x) \<and> length (entry_of x) < MaxScanTokenSize" if "x \<in> set ms" for x
    using that assms(3,4) stored_entry(1) [of x] by (simp add: list_all_iff)
  then have ok: "list_all (\<lambda>l. NL \<notin> set l \<and> length l < MaxScanTokenSize) (old @ map entry_of ms)"
    using assms(2) by (simp add: list_all_iff) blast
  have "map dropCR (map entry_of ms) = map entry_of ms"
    using assms(3) by (auto simp: list_all_iff stored_entry(2))
  then have "map (\<lambda>l. (c, dropCR l @ [NL])) (old @ map entry_of ms) =
      map (\<lambda>l. (c, l @ [NL])) (map dropCR old @ map entry_of ms)"
    by (simp add: comp_def)
  with sendHistory_lines [OF assms(6-8) h ok] show ?thesis
    by (simp add: history_eq [OF assms(5)])
qed

lemma replay_short_lines_example:
  "handleCommands example_env 2 ''Bob'' ''/history'' (chat_all two_chats alice_bob) =
     (''Bob'', (chat_all two_chats alice_bob)\<lparr>written :=
        [(2, ''Alice: hello'' @ [NL]), (1, ''Bob: hi there'' @ [NL]),
         (2, ''Mon, 02 Jan 2006 15:04:05 MST: Alice - hello'' @ [NL]),
         (2, ''Mon, 02 Jan 2006 15:04:05 MST: Bob - hi there'' @ [NL])]\<rparr>)"
proof -
  have 1: "history alice_bob = unlines []"
    by (simp add: unlines_def alice_bob_fields)
  have 2: "list_all (\<lambda>l. NL \<notin> set l \<and> length l < MaxScanTokenSize) []"
    by simp
  have 3: "list_all stored two_chats"
    by (simp add: two_chats_def command_prefixes_def HasPrefix_def TrimSpace_fixed
        example_env_fields logEntry_def example_stamp)
      (simp add: NL_def example_time_def)
  have 4: "list_all (\<lambda>x. length (entry_of x) < MaxScanTokenSize) two_chats"
    by (simp add: two_chats_def example_env_fields logEntry_def example_stamp
        MaxScanTokenSize_def)
  have 5: "HasPrefix ''/history'' ''/history''"
    by (simp add: HasPrefix_def)
  from replay_short_lines [OF 1 2 3 4 5, of example_env 2 "''Bob''"] show ?thesis
    by (simp add: example_env_fields two_chats_run)
      (simp add: two_chats_def example_env_fields logEntry_def example_stamp)
qed

text \<open>
  A line of \<open>MaxScanTokenSize\<close> bytes or more ends the scan with \<open>ErrTooLong\<close> before any
  token is returned for it: the replay writes the notice of a read error and none of
  the lines from there on, whatever the rest of the log holds.
\<close>

lemma replay_long_line:
  assumes "history s = l @ NL # r" and "NL \<notin> set l" and "MaxScanTokenSize \<le> length l"
    and "open_err e = None" and "read_err e = None"
  shows "sendHistory e c s =
    Write c (''Error occurred while reading history.'' @ [NL])
      (Println (''Error reading from history file: '' @ ErrTooLong) s)"
proof -
  have "scan_loop e c \<lparr>rest = l @ NL # r, pending = None, err = None\<rparr> s =
      (\<lparr>rest = l @ NL # r, pending = None, err = Some ErrTooLong\<rparr>, s)"
    by (subst scan_loop.simps) (simp add: Scan_long [OF assms(2,3)])
  with assms(1,4,5) show ?thesis
    by (simp add: sendHistory_def NewScanner_def)
qed

lemma long_then_short_eq:
  "long_then_short =
     alice_bob\<lparr>history := logEntry example_time ''Alice'' long_message @ NL #
         ''Mon, 02 Jan 2006 15:04:05 MST: Bob - hi there'' @ [NL],
       written := [(2, ''Alice: '' @ long_message @ [NL]), (1, ''Bob: hi there'' @ [NL])]\<rparr>"
  unfolding long_then_short_def long_sent
  by (simp add: handleCommands_def HasPrefix_def logMessage_def broadcastMessage_eq Let_def
      alice_bob_fields example_env_fields example_stamp)

text \<open>
  C4. Every chat message that was appended and broadcast is to be in a later replay,
  in order, with the nickname of its sender and its text. The handler reads a line of
  any length and appends it to the log, while the replay reads the log through a
  scanner whose buffer holds \<open>MaxScanTokenSize\<close> bytes. At this input the code does not
  do what the property says: the message of Alice, \<open>MaxScanTokenSize\<close> bytes long, and
  the short message that Bob sends after it are both appended and broadcast, and the
  dispatch of \<^verbatim>\<open>/history\<close> for Alice or for Bob then writes the notice of a read error
  and neither of the two messages.
\<close>

theorem history_replay_long_line:
  "history long_then_short =
     logEntry example_time ''Alice'' long_message @ [NL] @
     ''Mon, 02 Jan 2006 15:04:05 MST: Bob - hi there'' @ [NL] \<and>
   written long_then_short =
     [(2, ''Alice: '' @ long_message @ [NL]), (1, ''Bob: hi there'' @ [NL])] \<and>
   written (snd (handleCommands example_env 1 ''Alice'' ''/history'' long_then_short)) =
     [(2, ''Alice: '' @ long_message @ [NL]), (1, ''Bob: hi there'' @ [NL]),
      (1, ''Error occurred while reading history.'' @ [NL])] \<and>
   written (snd (handleCommands example_env 2 ''Bob'' ''/history'' long_then_short)) =
     [(2, ''Alice: '' @ long_message @ [NL]), (1, ''Bob: hi there'' @ [NL]),
      (2, ''Error occurred while reading history.'' @ [NL])]"
proof -
  have p: "HasPrefix ''/history'' ''/history''"
    by (simp add: HasPrefix_def)
  have h: "history long_then_short = logEntry example_time ''Alice'' long_message @ NL #
      ''Mon, 02 Jan 2006 15:04:05 MST: Bob - hi there'' @ [NL]"
    and w: "written long_then_short =
      [(2, ''Alice: '' @ long_message @ [NL]), (1, ''Bob: hi there'' @ [NL])]"
    by (simp_all add: long_then_short_eq)
  have "sendHistory example_env c long_then_short =
      Write c (''Error occurred while reading history.'' @ [NL])
        (Println (''Error reading from history file: '' @ ErrTooLong) long_then_short)" for c
    using h long_entry(1,2) by (rule replay_long_line) (simp_all add: example_env_fields)
  then have "written (snd (handleCommands example_env c n ''/history'' long_then_short)) =
      written long_then_short @ [(c, ''Error occurred while reading history.'' @ [NL])]" for c n
    by (simp add: history_eq [OF p] Write_def Println_def)
  with h w show ?thesis
    by simp
qed

end
